theory Spec2Isabelle
  imports Main
begin

section \<open>The chat front-end of llamafile (llamafile/chatbot.cpp)\<close>

text \<open>
  The program keeps three pieces of process-wide state (\<open>n_past\<close>, the engine handles
  \<open>g_model\<close>/\<open>g_ctx\<close> and the flag \<open>g_got_sigint\<close>) and talks to an inference engine
  (llama.cpp) and to the terminal. The embedding passes the state explicitly, takes the
  engine's operations as parameters, and records every call to the engine and every
  write to a stream in a trace, in program order.
\<close>

subsection \<open>C integers, characters and strings\<close>

text \<open>
  A C \<open>int\<close> is a 32-bit two's complement number. \<open>cint x\<close> is the value an \<open>int\<close>
  variable holds after \<open>x\<close> is stored in it: \<open>x\<close> itself when it is representable, and
  the wrapped value otherwise (signed overflow is undefined in C++; the hardware wraps).
\<close>

definition INT_MAX :: int where
  "INT_MAX = 2147483647"

definition cint :: "int \<Rightarrow> int" where
  "cint x = (x + 2147483648) mod 4294967296 - 2147483648"

text \<open>
  A \<open>const char *\<close> is the list of the characters before its terminating NUL.
  \<open>isspace\<close> and \<open>isalpha\<close> are those of the C locale.
\<close>

definition isspace :: "char \<Rightarrow> bool" where
  "isspace c = (c = CHR '' '' \<or> ((9::nat) \<le> of_char c \<and> (of_char c :: nat) \<le> 13))"

definition isalpha :: "char \<Rightarrow> bool" where
  "isalpha c = (((65::nat) \<le> of_char c \<and> (of_char c :: nat) \<le> 90) \<or>
                ((97::nat) \<le> of_char c \<and> (of_char c :: nat) \<le> 122))"

text \<open>\<open>is_empty\<close>: the loop \<open>while ((c = *s++)) if (!isspace(c)) return false;\<close>.\<close>

fun is_empty :: "string \<Rightarrow> bool" where
  "is_empty [] = True"
| "is_empty (c # s) = (if \<not> isspace c then False else is_empty s)"

text \<open>
  A \<open>std::string\<close> may hold NUL characters. \<open>s.c_str()\<close>, read as a \<open>const char *\<close> (by
  \<open>printf("%s", ...)\<close> or when a \<open>std::string\<close> is built from it), is the part of \<open>s\<close>
  before its first NUL.
\<close>

definition c_str :: "string \<Rightarrow> string" where
  "c_str s = takeWhile (\<lambda>c. c \<noteq> CHR 0x00) s"

text \<open>\<open>printf("%d", x)\<close>: the decimal digits of \<open>x\<close>, with a minus sign when negative.\<close>

function dec_nat :: "nat \<Rightarrow> string" where
  "dec_nat n = (if n < 10 then [char_of (48 + n)]
                else dec_nat (n div 10) @ [char_of (48 + n mod 10)])"
  by pat_completeness auto
termination
  by (relation "measure id") auto

declare dec_nat.simps [simp del]

definition printf_d :: "int \<Rightarrow> string" where
  "printf_d x = (if x < 0 then CHR ''-'' # dec_nat (nat (- x)) else dec_nat (nat x))"

text \<open>The terminal escapes the program uses.\<close>

definition ESC :: char where "ESC = CHR 0x1B"
definition NL :: char where "NL = CHR 0x0A"
definition BRIGHT_RED :: string where "BRIGHT_RED = ESC # ''[91m''"
definition UNFOREGROUND :: string where "UNFOREGROUND = ESC # ''[39m''"
definition BRIGHT_BLACK :: string where "BRIGHT_BLACK = ESC # ''[90m''"
definition CLEAR_FORWARD :: string where "CLEAR_FORWARD = ESC # ''[K''"

subsection \<open>The engine, the trace and the process state\<close>

type_synonym llama_token = int

text \<open>
  \<open>llama_batch_get_one(&tokens[i], n_eval, n_past, 0)\<close>: a batch of \<open>n_tokens\<close> tokens,
  the first at position \<open>all_pos_0\<close>, all of sequence \<open>all_seq_id\<close>. \<open>token\<close> holds the
  tokens the engine may read through the pointer.
\<close>

record llama_batch =
  n_tokens :: int
  token :: "llama_token list"
  all_pos_0 :: int
  all_seq_id :: int

type_synonym llama_chat_msg = "string \<times> string"

datatype event =
    Stdout string
  | Stderr string
  | Fflush_stdout
  | Decode llama_batch int
  | Tokenize string bool bool
  | Apply_template string "llama_chat_msg list" bool
  | Sample llama_token
  | Accept llama_token
  | Print_timings bool
  | Bestline string

text \<open>
  \<open>Decode b rc\<close> is a call \<open>llama_decode(g_ctx, b)\<close> that returned \<open>rc\<close>;
  \<open>Print_timings d\<close> is a call \<open>llama_print_timings(g_ctx)\<close> made while
  \<open>FLAG_log_disable\<close> is \<open>d\<close>; \<open>Bestline p\<close> is a call of \<open>bestlineWithHistory\<close> with
  the prompt \<open>p\<close>.
\<close>

text \<open>
  The operations of llama.cpp the program calls, over an opaque engine state \<open>'e\<close> (the
  model, the context and the sampling context). They are not part of chatbot.cpp and
  are taken as parameters. \<open>llama_decode\<close> returns its status (0 on success) and the
  new engine state; \<open>llama_sampling_sample\<close> returns the token and the new state.
\<close>

record 'e engine =
  llama_decode :: "'e \<Rightarrow> llama_batch \<Rightarrow> int \<times> 'e"
  llama_tokenize :: "'e \<Rightarrow> string \<Rightarrow> bool \<Rightarrow> bool \<Rightarrow> llama_token list"
  llama_n_ctx :: "'e \<Rightarrow> int"
  llama_n_ctx_train :: "'e \<Rightarrow> int"
  llama_should_add_bos_token :: "'e \<Rightarrow> bool"
  llama_chat_apply_template :: "'e \<Rightarrow> string \<Rightarrow> llama_chat_msg list \<Rightarrow> bool \<Rightarrow> string"
  llama_sampling_sample :: "'e \<Rightarrow> llama_token \<times> 'e"
  llama_sampling_accept :: "'e \<Rightarrow> llama_token \<Rightarrow> bool \<Rightarrow> 'e"
  llama_token_is_eog :: "'e \<Rightarrow> llama_token \<Rightarrow> bool"
  llama_token_to_piece :: "'e \<Rightarrow> llama_token \<Rightarrow> bool \<Rightarrow> string"

text \<open>
  The globals of chatbot.cpp, the flag \<open>FLAG_log_disable\<close> of llamafile.h, and the trace.
  \<open>g_got_sigint\<close> is a \<open>sig_atomic_t\<close>.
\<close>

record 'e world =
  n_past :: int
  g_ctx :: 'e
  g_got_sigint :: int
  FLAG_log_disable :: bool
  trace :: "event list"

text \<open>
  How a call ends: it returns a value, the process exits with a status (\<open>exit\<close>), or
  the behaviour is undefined (an index outside a vector).
\<close>

datatype ('a, 'e) outcome =
    Return 'a "'e world"
  | Exit int "'e world"
  | Undefined_behaviour

definition emit :: "event list \<Rightarrow> 'e world \<Rightarrow> 'e world" where
  "emit evs w = w\<lparr>trace := trace w @ evs\<rparr>"

definition on_sigint :: "'e world \<Rightarrow> 'e world" where
  "on_sigint w = w\<lparr>g_got_sigint := 1\<rparr>"

subsection \<open>Running out of context\<close>

definition out_of_context_message :: "int \<Rightarrow> int \<Rightarrow> string" where
  "out_of_context_message n c =
     [NL] @ BRIGHT_RED @
     ''error: ran out of context window at '' @ printf_d n @
     '' tokens; you can use the maximum context window size by passing the flag `-c '' @
     printf_d c @ ''` to llamafile.'' @ UNFOREGROUND @ [NL]"

definition die_out_of_context :: "'e engine \<Rightarrow> 'e world \<Rightarrow> ('a, 'e) outcome" where
  "die_out_of_context E w =
     Exit 1 (emit [Stderr (out_of_context_message (n_past w) (llama_n_ctx_train E (g_ctx w)))] w)"

subsection \<open>Evaluating tokens\<close>

definition llama_batch_get_one :: "llama_token list \<Rightarrow> int \<Rightarrow> int \<Rightarrow> int \<Rightarrow> llama_batch" where
  "llama_batch_get_one tokens_from n pos_0 seq_id =
     \<lparr>n_tokens = n, token = take (nat n) tokens_from, all_pos_0 = pos_0, all_seq_id = seq_id\<rparr>"

text \<open>
  The loop of \<open>eval_tokens\<close>, entered with the counter \<open>i\<close>; \<open>N\<close> is \<open>(int)tokens.size()\<close>.
  With a batch size that is not positive the loop need not end, so the result is an
  option: \<open>None\<close> when the loop runs forever.
\<close>

partial_function (option) eval_tokens_loop ::
  "'e engine \<Rightarrow> llama_token list \<Rightarrow> int \<Rightarrow> int \<Rightarrow> int \<Rightarrow> 'e world \<Rightarrow> (unit, 'e) outcome option"
where
  "eval_tokens_loop E tokens n_batch N i w =
     (if i < N then
        (let n_eval = cint (cint (int (length tokens)) - i);
             n_eval = (if n_eval > n_batch then n_batch else n_eval)
         in if \<not> (0 \<le> i \<and> i < int (length tokens)) then Some Undefined_behaviour
            else
              (case llama_decode E (g_ctx w)
                      (llama_batch_get_one (drop (nat i) tokens) n_eval (n_past w) 0) of
                 (rc, e) \<Rightarrow>
                   (let w1 = emit [Decode (llama_batch_get_one (drop (nat i) tokens) n_eval (n_past w) 0) rc]
                               (w\<lparr>g_ctx := e\<rparr>)
                    in if rc \<noteq> 0 then Some (die_out_of_context E w1)
                       else eval_tokens_loop E tokens n_batch N (cint (i + n_batch))
                              (w1\<lparr>n_past := cint (n_past w1 + n_eval)\<rparr>))))
      else Some (Return () w))"

definition eval_tokens ::
  "'e engine \<Rightarrow> llama_token list \<Rightarrow> int \<Rightarrow> 'e world \<Rightarrow> (unit, 'e) outcome option" where
  "eval_tokens E tokens n_batch w =
     eval_tokens_loop E tokens n_batch (cint (int (length tokens))) 0 w"

definition eval_id :: "'e engine \<Rightarrow> llama_token \<Rightarrow> 'e world \<Rightarrow> (unit, 'e) outcome option" where
  "eval_id E tok w = eval_tokens E [tok] 1 w"

text \<open>
  \<open>eval_string\<close> takes a \<open>const char *\<close> and copies it into the \<open>std::string str2\<close>, which
  therefore ends before the first NUL; \<open>Tokenize\<close> records the string handed to the tokenizer.
\<close>

definition eval_string ::
  "'e engine \<Rightarrow> string \<Rightarrow> int \<Rightarrow> bool \<Rightarrow> bool \<Rightarrow> 'e world \<Rightarrow> (unit, 'e) outcome option" where
  "eval_string E str n_batch add_special parse_special w =
     (let str2 = c_str str
      in eval_tokens E (llama_tokenize E (g_ctx w) str2 add_special parse_special) n_batch
           (emit [Tokenize str2 add_special parse_special] w))"


subsection \<open>Commands\<close>

text \<open>
  \<open>command[i]\<close> for \<open>i\<close> up to the length of the string; the character at the length is
  the terminating NUL.
\<close>

definition c_at :: "string \<Rightarrow> nat \<Rightarrow> char" where
  "c_at s i = (if i < length s then s ! i else CHR 0x00)"

text \<open>
  \<open>while (iss >> arg) args.push_back(arg)\<close>: each extraction skips white space and reads
  up to the next white space; it fails at the end of the string.
\<close>

function iss_words :: "string \<Rightarrow> string list" where
  "iss_words s =
     (case dropWhile isspace s of
        [] \<Rightarrow> []
      | c # r \<Rightarrow> (c # takeWhile (\<lambda>x. \<not> isspace x) r) # iss_words (dropWhile (\<lambda>x. \<not> isspace x) r))"
  by pat_completeness auto
termination
proof (relation "measure length")
  fix s :: string and c r
  assume "dropWhile isspace s = c # r"
  then have "length r < length s"
    using length_dropWhile_le [of isspace s] by simp
  moreover have "length (dropWhile (\<lambda>x. \<not> isspace x) r) \<le> length r"
    by (rule length_dropWhile_le)
  ultimately show "(dropWhile (\<lambda>x. \<not> isspace x) r, s) \<in> measure length"
    by simp
qed simp

declare iss_words.simps [simp del]

definition context_report :: "int \<Rightarrow> int \<Rightarrow> string" where
  "context_report n configured_context =
     printf_d n @ '' out of '' @ printf_d configured_context @ '' context tokens used ('' @
     printf_d (cint (configured_context - n)) @ '' tokens remaining)'' @ [NL]"

definition context_hint :: "int \<Rightarrow> string" where
  "context_hint max_context =
     ''use the `-c '' @ printf_d max_context @ ''` flag at startup for maximum context'' @ [NL]"

text \<open>
  \<open>handle_command\<close>; \<open>slash_alpha\<close> abbreviates its test
  \<open>command[0] == '/' && std::isalpha(command[1])\<close>. \<open>args[0]\<close> is read without a check,
  so an empty \<open>args\<close> is undefined behaviour. \<open>llama_print_timings\<close> only reports; it leaves the engine as it is.
\<close>

abbreviation (input) slash_alpha :: "string \<Rightarrow> bool" where
  "slash_alpha command \<equiv> c_at command 0 = CHR ''/'' \<and> isalpha (c_at command 1)"

definition handle_command :: "'e engine \<Rightarrow> string \<Rightarrow> 'e world \<Rightarrow> (bool, 'e) outcome" where
  "handle_command E command w =
     (if \<not> slash_alpha command then Return False w
      else
        (case iss_words (drop 1 command) of
           [] \<Rightarrow> Undefined_behaviour
         | arg0 # args \<Rightarrow>
             if arg0 = ''stats'' then
               (let w1 = w\<lparr>FLAG_log_disable := False\<rparr>;
                    w2 = emit [Print_timings (FLAG_log_disable w1)] w1;
                    w3 = w2\<lparr>FLAG_log_disable := True\<rparr>
                in Return True w3)
             else if arg0 = ''context'' then
               (let configured_context = cint (llama_n_ctx E (g_ctx w));
                    max_context = llama_n_ctx_train E (g_ctx w);
                    w1 = emit [Stdout (context_report (n_past w) configured_context)] w;
                    w2 = (if configured_context < max_context
                          then emit [Stdout (context_hint max_context)] w1 else w1)
                in Return True w2)
             else Return True (emit [Stdout (arg0 @ '': unrecognized command'' @ [NL])] w)))"

subsection \<open>The chat loop\<close>

text \<open>The fields of \<open>gpt_params\<close> that \<open>chatbot_main\<close> reads.\<close>

record gpt_params =
  prompt :: string
  chat_template :: string
  n_batch :: int
  special :: bool

text \<open>What follows a call that may exit: the continuation runs only after a return.\<close>

definition and_then ::
  "('a, 'e) outcome option \<Rightarrow> ('a \<Rightarrow> 'e world \<Rightarrow> ('b, 'e) outcome option) \<Rightarrow> ('b, 'e) outcome option" where
  "and_then r k =
     (case r of
        None \<Rightarrow> None
      | Some (Return a w) \<Rightarrow> k a w
      | Some (Exit c w) \<Rightarrow> Some (Exit c w)
      | Some Undefined_behaviour \<Rightarrow> Some Undefined_behaviour)"

text \<open>
  SIGINT arrives asynchronously and runs \<open>on_sigint\<close>. A schedule \<open>sigs\<close> says, for each
  evaluation of the loop condition \<open>!g_got_sigint\<close> in turn, whether the handler has
  run since the previous one; after the end of the schedule no signal arrives.
\<close>

definition deliver :: "bool list \<Rightarrow> 'e world \<Rightarrow> 'e world" where
  "deliver sigs w = (case sigs of True # _ \<Rightarrow> on_sigint w | _ \<Rightarrow> w)"

text \<open>
  The loop \<open>while (!g_got_sigint) { ... }\<close> of \<open>chatbot_main\<close>. It need not end (the model
  may never produce an end-of-generation token), so the result is an option. The piece
  of a token is printed with \<open>printf("%s", piece.c_str())\<close>.
\<close>

partial_function (option) generation_loop ::
  "'e engine \<Rightarrow> gpt_params \<Rightarrow> bool list \<Rightarrow> 'e world \<Rightarrow> (unit, 'e) outcome option"
where
  "generation_loop E params sigs w0 =
     (let w = deliver sigs w0 in
      if g_got_sigint w \<noteq> 0 then Some (Return () w)
      else
        (case llama_sampling_sample E (g_ctx w) of
           (tok, e1) \<Rightarrow>
             (let w1 = emit [Sample tok] (w\<lparr>g_ctx := e1\<rparr>);
                  w2 = emit [Accept tok] (w1\<lparr>g_ctx := llama_sampling_accept E (g_ctx w1) tok True\<rparr>)
              in if llama_token_is_eog E (g_ctx w2) tok then Some (Return () w2)
                 else
                   (let w3 = emit [Stdout (c_str (llama_token_to_piece E (g_ctx w2) tok (special params))),
                                   Fflush_stdout] w2
                    in case eval_id E tok w3 of
                         None \<Rightarrow> None
                       | Some (Return u w4) \<Rightarrow> generation_loop E params (tl sigs) w4
                       | Some (Exit c w4) \<Rightarrow> Some (Exit c w4)
                       | Some Undefined_behaviour \<Rightarrow> Some Undefined_behaviour))))"

text \<open>The loop with the two statements after it: \<open>g_got_sigint = 0; printf("\n");\<close>.\<close>

definition generate ::
  "'e engine \<Rightarrow> gpt_params \<Rightarrow> bool list \<Rightarrow> 'e world \<Rightarrow> (unit, 'e) outcome option" where
  "generate E params sigs w =
     and_then (generation_loop E params sigs w)
       (\<lambda>_ w'. Some (Return () (emit [Stdout [NL]] (w'\<lparr>g_got_sigint := 0\<rparr>))))"

text \<open>
  A line that is neither blank nor a command: the user's turn and the reply. \<open>line\<close> is
  the \<open>char *\<close> that \<open>bestlineWithHistory\<close> returned, and \<open>eval_string\<close> is given
  \<open>msg.c_str()\<close>.
\<close>

definition chat_reply ::
  "'e engine \<Rightarrow> gpt_params \<Rightarrow> string \<Rightarrow> bool list \<Rightarrow> 'e world \<Rightarrow> (unit, 'e) outcome option" where
  "chat_reply E params line sigs w =
     (let chat = [(''user'', line)];
          msg = llama_chat_apply_template E (g_ctx w) (chat_template params) chat True;
          w1 = emit [Apply_template (chat_template params) chat True] w
      in and_then (eval_string E (c_str msg) (n_batch params) False True w1)
           (\<lambda>_ w2. generate E params sigs w2))"

text \<open>The body of the \<open>for (;;)\<close> loop once a line has been read.\<close>

definition chatbot_turn ::
  "'e engine \<Rightarrow> gpt_params \<Rightarrow> string \<Rightarrow> bool list \<Rightarrow> 'e world \<Rightarrow> (unit, 'e) outcome option" where
  "chatbot_turn E params line sigs w =
     (if is_empty line then Some (Return () w)
      else
        (case handle_command E line w of
           Return True w' \<Rightarrow> Some (Return () w')
         | Return False w' \<Rightarrow> chat_reply E params line sigs w'
         | Exit c w' \<Rightarrow> Some (Exit c w')
         | Undefined_behaviour \<Rightarrow> Some Undefined_behaviour))"

definition BRIGHT_GREEN :: string where "BRIGHT_GREEN = ESC # ''[92m''"

definition read_line :: "'e world \<Rightarrow> 'e world" where
  "read_line w = emit [Stdout BRIGHT_GREEN, Bestline ''>>> '', Stdout UNFOREGROUND] w"

text \<open>
  The \<open>for (;;)\<close> loop over the lines the user enters, each with the schedule of the
  signals during its reply; at the end of the input \<open>bestlineWithHistory\<close> returns NULL.
\<close>

fun chatbot_repl ::
  "'e engine \<Rightarrow> gpt_params \<Rightarrow> (string \<times> bool list) list \<Rightarrow> 'e world \<Rightarrow> (unit, 'e) outcome option" where
  "chatbot_repl E params [] w = Some (Return () (read_line w))"
| "chatbot_repl E params ((line, sigs) # rest) w =
     and_then (chatbot_turn E params line sigs (read_line w))
       (\<lambda>_ w'. chatbot_repl E params rest w')"

definition default_prompt :: string where
  "default_prompt =
     ''A chat between a curious human and an artificial intelligence assistant. The '' @
     ''assistant gives helpful, detailed, and polite answers to the human's questions.''"

definition print_ephemeral :: "string \<Rightarrow> 'e world \<Rightarrow> 'e world" where
  "print_ephemeral description w =
     emit [Stderr ('' '' @ BRIGHT_BLACK @ description @ UNFOREGROUND @ [CHR 0x0D])] w"

definition clear_ephemeral :: "'e world \<Rightarrow> 'e world" where
  "clear_ephemeral w = emit [Stderr CLEAR_FORWARD] w"

text \<open>
  Loading the prompt: the system turn (from "loading prompt..." to the echo). Both
  \<open>eval_string\<close> and the echo \<open>printf("%s\n", ...)\<close> are given \<open>c_str()\<close> of their string.
\<close>

definition load_prompt :: "'e engine \<Rightarrow> gpt_params \<Rightarrow> 'e world \<Rightarrow> (unit, 'e) outcome option" where
  "load_prompt E params w =
     (let w1 = print_ephemeral ''loading prompt...'' w;
          add_bos = llama_should_add_bos_token E (g_ctx w1);
          chat = [(''system'', prompt params)];
          msg = llama_chat_apply_template E (g_ctx w1) (chat_template params) chat False;
          w2 = emit [Apply_template (chat_template params) chat False] w1
      in and_then (eval_string E (c_str msg) (n_batch params) add_bos True w2)
           (\<lambda>_ w3. Some (Return ()
              (emit [Stdout ((if special params then c_str msg else c_str (prompt params)) @ [NL])]
                 (clear_ephemeral w3)))))"

text \<open>
  \<open>chatbot_main\<close>. \<open>parsed\<close> is what \<open>gpt_params_parse\<close> yields (\<open>None\<close> when it fails), and
  \<open>model_loaded\<close> and \<open>context_created\<close> say whether \<open>llama_load_model_from_file\<close> and
  \<open>llama_new_context_with_model\<close> returned a handle; \<open>w\<close> holds the engine they refer to.
  The logo, the banner and the progress messages before the prompt is loaded are not
  in the trace; \<open>log_disable\<close>, crash reporting, the set-up of the backend and of the
  sampling context, and line completion lie outside chatbot.cpp's state and are not
  modelled.
\<close>

definition chatbot_main ::
  "'e engine \<Rightarrow> gpt_params option \<Rightarrow> bool \<Rightarrow> bool \<Rightarrow> (string \<times> bool list) list \<Rightarrow> 'e world \<Rightarrow>
   (int, 'e) outcome option" where
  "chatbot_main E parsed model_loaded context_created input w =
     (case parsed of
        None \<Rightarrow> Some (Return 1 w)
      | Some params0 \<Rightarrow>
          if \<not> model_loaded then Some (Return 2 w)
          else if \<not> context_created then Some (Return 3 w)
          else
            (let params = (if prompt params0 = [] then params0\<lparr>prompt := default_prompt\<rparr>
                           else params0)
             in and_then (load_prompt E params w)
                  (\<lambda>_ w1. and_then (chatbot_repl E params input w1)
                     (\<lambda>_ w2. Some (Return 0 w2)))))"

text \<open>The status with which the process ends.\<close>

fun exit_status :: "(int, 'e) outcome \<Rightarrow> int option" where
  "exit_status (Return c w) = Some c"
| "exit_status (Exit c w) = Some c"
| "exit_status Undefined_behaviour = None"

text \<open>
  The state in which \<open>chatbot_main\<close> starts: the statics \<open>n_past\<close> and \<open>g_got_sigint\<close> are
  zero, and nothing has been traced. \<open>e\<close> is the engine behind \<open>g_model\<close> and \<open>g_ctx\<close>.
\<close>

definition initial_world :: "'e \<Rightarrow> bool \<Rightarrow> 'e world" where
  "initial_world e log_disable =
     \<lparr>n_past = 0, g_ctx = e, g_got_sigint = 0, FLAG_log_disable = log_disable, trace = []\<rparr>"

declare eval_tokens_loop.simps [code]
declare generation_loop.simps [code]

section \<open>Notions for stating the properties\<close>

subsection \<open>The evaluator as the specification words it\<close>

text \<open>
  The specification describes its operation \<open>evaluate\<close> in two steps: the token
  sequence is split into chunks of at most \<open>batch_size\<close> tokens, and each chunk in turn
  is decoded at the position \<open>consumed_tokens\<close>, which advances by the chunk's length
  only when the engine accepts the chunk. \<open>chunks\<close> and \<open>spec_evaluate\<close> follow these words,
  not the code; they are compared with \<open>eval_tokens\<close> below.
\<close>

function chunks :: "nat \<Rightarrow> 'a list \<Rightarrow> 'a list list" where
  "chunks n xs = (if n = 0 \<or> xs = [] then [] else take n xs # chunks n (drop n xs))"
  by pat_completeness auto
termination
  by (relation "measure (\<lambda>(n, xs). length xs)") auto

declare chunks.simps [simp del]

definition chunk_batch :: "llama_token list \<Rightarrow> int \<Rightarrow> llama_batch" where
  "chunk_batch c pos = \<lparr>n_tokens = int (length c), token = c, all_pos_0 = pos, all_seq_id = 0\<rparr>"

fun spec_evaluate :: "'e engine \<Rightarrow> llama_token list list \<Rightarrow> 'e world \<Rightarrow> (unit, 'e) outcome" where
  "spec_evaluate E [] w = Return () w"
| "spec_evaluate E (c # cs) w =
     (case llama_decode E (g_ctx w) (chunk_batch c (n_past w)) of
        (rc, e) \<Rightarrow>
          (let w1 = emit [Decode (chunk_batch c (n_past w)) rc] (w\<lparr>g_ctx := e\<rparr>)
           in if rc \<noteq> 0 then die_out_of_context E w1
              else spec_evaluate E cs (w1\<lparr>n_past := n_past w1 + int (length c)\<rparr>)))"

text \<open>The decode calls of a fully accepted evaluation that starts at position \<open>pos\<close>.\<close>

fun accepted_decodes :: "int \<Rightarrow> llama_token list list \<Rightarrow> event list" where
  "accepted_decodes pos [] = []"
| "accepted_decodes pos (c # cs) =
     Decode (chunk_batch c pos) 0 # accepted_decodes (pos + int (length c)) cs"

subsection \<open>Accounting, the engine's contract, exits and the renderer's trace\<close>

text \<open>
  The number of tokens the engine has accepted according to a trace, and the state
  invariant of the accountant: \<open>n_past\<close> is that number and lies within the window.
\<close>

fun accepted_tokens :: "event list \<Rightarrow> int" where
  "accepted_tokens [] = 0"
| "accepted_tokens (Decode b rc # tr) = (if rc = 0 then n_tokens b else 0) + accepted_tokens tr"
| "accepted_tokens (ev # tr) = accepted_tokens tr"

definition accounted :: "'e engine \<Rightarrow> 'e world \<Rightarrow> bool" where
  "accounted E w =
     (0 \<le> n_past w \<and> n_past w \<le> llama_n_ctx E (g_ctx w) \<and> n_past w = accepted_tokens (trace w))"

text \<open>
  The engine's contract: a decode that would reach beyond the configured window fails,
  and decoding does not change the size of the window.
\<close>

definition decode_contract :: "'e engine \<Rightarrow> bool" where
  "decode_contract E =
     (\<forall>e b. (llama_n_ctx E e < all_pos_0 b + n_tokens b \<longrightarrow> fst (llama_decode E e b) \<noteq> 0) \<and>
            llama_n_ctx E (snd (llama_decode E e b)) = llama_n_ctx E e)"

text \<open>
  Sampling and accepting a token do not change the size of the window either. An
  outcome stays accounted when it is a return or the overflow exit, in an accounted
  state with the window of the state \<open>w\<close> it started from.
\<close>

definition window_fixed :: "'e engine \<Rightarrow> bool" where
  "window_fixed E =
     (\<forall>e t g. llama_n_ctx E (snd (llama_sampling_sample E e)) = llama_n_ctx E e \<and>
              llama_n_ctx E (llama_sampling_accept E e t g) = llama_n_ctx E e)"

definition stays_accounted :: "'e engine \<Rightarrow> 'e world \<Rightarrow> ('a, 'e) outcome \<Rightarrow> bool" where
  "stays_accounted E w r =
     (\<exists>w'. ((\<exists>a. r = Return a w') \<or> r = Exit 1 w') \<and>
           accounted E w' \<and> llama_n_ctx E (g_ctx w') = llama_n_ctx E (g_ctx w))"

text \<open>
  An outcome is an overflow exit when, if it is an exit at all, its status is 1 and
  the last thing traced is the out-of-context diagnostic for the final \<open>n_past\<close>.
\<close>

definition overflow_exit :: "'e engine \<Rightarrow> ('a, 'e) outcome \<Rightarrow> bool" where
  "overflow_exit E r =
     (case r of
        Exit st w \<Rightarrow>
          st = 1 \<and>
          (\<exists>tr. trace w =
             tr @ [Stderr (out_of_context_message (n_past w) (llama_n_ctx_train E (g_ctx w)))])
      | _ \<Rightarrow> True)"

text \<open>
  The part of a trace that concerns the turn renderer: the template and tokenizer
  calls. \<open>ends_in r P\<close> says that the state in which the outcome \<open>r\<close> leaves the process
  (after a return or at an exit) satisfies \<open>P\<close>.
\<close>

fun is_turn_event :: "event \<Rightarrow> bool" where
  "is_turn_event (Apply_template tmpl chat add_ass) = True"
| "is_turn_event (Tokenize str add_special parse_special) = True"
| "is_turn_event ev = False"

definition turn_events :: "event list \<Rightarrow> event list" where
  "turn_events tr = filter is_turn_event tr"

definition ends_in :: "('a, 'e) outcome \<Rightarrow> ('e world \<Rightarrow> bool) \<Rightarrow> bool" where
  "ends_in r P = (case r of Return a w \<Rightarrow> P w | Exit st w \<Rightarrow> P w | Undefined_behaviour \<Rightarrow> True)"

text \<open>
  The turn events of the system turn and of a user's turn. A user's turn is given by
  its line and the engine state in which the template was applied. \<open>chat_lines\<close> are the
  lines of the input that are neither blank nor commands, in order.
\<close>

definition system_turn :: "'e engine \<Rightarrow> string \<Rightarrow> string \<Rightarrow> 'e \<Rightarrow> event list" where
  "system_turn E tmpl text e =
     [Apply_template tmpl [(''system'', text)] False,
      Tokenize (c_str (llama_chat_apply_template E e tmpl [(''system'', text)] False))
        (llama_should_add_bos_token E e) True]"

definition user_turn :: "'e engine \<Rightarrow> string \<Rightarrow> string \<times> 'e \<Rightarrow> event list" where
  "user_turn E tmpl t =
     [Apply_template tmpl [(''user'', fst t)] True,
      Tokenize (c_str (llama_chat_apply_template E (snd t) tmpl [(''user'', fst t)] True))
        False True]"

definition chat_lines :: "(string \<times> bool list) list \<Rightarrow> string list" where
  "chat_lines input = filter (\<lambda>line. \<not> is_empty line \<and> \<not> slash_alpha line) (map fst input)"

subsection \<open>A small engine to run the program on\<close>

text \<open>
  An engine with a window of ten positions. Its state is the list of the tokens it
  will sample; token 0 ends a reply. A string is tokenized byte by byte, with token 1
  in front when special tokens are asked for, and the template renders a turn as its
  text.
\<close>

definition demo_engine :: "bool \<Rightarrow> llama_token list engine" where
  "demo_engine add_bos =
     \<lparr>llama_decode = (\<lambda>e b. (if 10 < all_pos_0 b + n_tokens b then 1 else 0, e)),
      llama_tokenize = (\<lambda>e s add_special parse_special.
         (if add_special then [1] else []) @ map (\<lambda>c. int (of_char c)) s),
      llama_n_ctx = (\<lambda>e. 10),
      llama_n_ctx_train = (\<lambda>e. 32),
      llama_should_add_bos_token = (\<lambda>e. add_bos),
      llama_chat_apply_template = (\<lambda>e tmpl chat add_ass. concat (map snd chat)),
      llama_sampling_sample = (\<lambda>e. (case e of [] \<Rightarrow> (0, []) | t # ts \<Rightarrow> (t, ts))),
      llama_sampling_accept = (\<lambda>e t apply_grammar. e),
      llama_token_is_eog = (\<lambda>e t. t = 0),
      llama_token_to_piece = (\<lambda>e t sp. [char_of t])\<rparr>"

definition demo_world :: "int \<Rightarrow> llama_token list \<Rightarrow> bool \<Rightarrow> llama_token list world" where
  "demo_world n e log_disable =
     \<lparr>n_past = n, g_ctx = e, g_got_sigint = 0, FLAG_log_disable = log_disable, trace = []\<rparr>"

definition demo_params :: gpt_params where
  "demo_params = \<lparr>prompt = ''Hi'', chat_template = ''chatml'', n_batch = 4, special = False\<rparr>"

section \<open>Helper facts\<close>

subsection \<open>C integers\<close>

lemma cint_id: "- 2147483648 \<le> x \<Longrightarrow> x < 2147483648 \<Longrightarrow> cint x = x"
  by (simp add: cint_def)

subsection \<open>C strings\<close>

lemma c_str_idem [simp]: "c_str (c_str s) = c_str s"
  by (simp add: c_str_def)


lemma eval_string_unfold:
  "eval_string E str nb a p w =
     eval_tokens E (llama_tokenize E (g_ctx w) (c_str str) a p) nb
       (emit [Tokenize (c_str str) a p] w)"
  by (simp add: eval_string_def Let_def)

subsection \<open>Chunks\<close>

lemma chunks_Nil [simp]: "chunks n [] = []"
  by (simp add: chunks.simps)

lemma chunks_zero [simp]: "chunks 0 xs = []"
  by (simp add: chunks.simps)

lemma chunks_Cons: "0 < n \<Longrightarrow> xs \<noteq> [] \<Longrightarrow> chunks n xs = take n xs # chunks n (drop n xs)"
  by (subst chunks.simps) simp

lemma concat_chunks: "0 < n \<Longrightarrow> concat (chunks n xs) = xs"
proof (induction n xs rule: chunks.induct)
  case (1 n xs)
  show ?case
  proof (cases "xs = []")
    case True
    then show ?thesis by simp
  next
    case False
    with 1 show ?thesis by (simp add: chunks_Cons)
  qed
qed

lemma chunks_bounds: "c \<in> set (chunks n xs) \<Longrightarrow> c \<noteq> [] \<and> length c \<le> n"
proof (induction n xs rule: chunks.induct)
  case (1 n xs)
  show ?case
  proof (cases "n = 0 \<or> xs = []")
    case True
    with "1.prems" show ?thesis by (auto simp: chunks.simps)
  next
    case False
    then have "chunks n xs = take n xs # chunks n (drop n xs)"
      by (simp add: chunks_Cons)
    with "1.prems" have "c = take n xs \<or> c \<in> set (chunks n (drop n xs))"
      by simp
    then show ?thesis
    proof
      assume "c = take n xs"
      with False show ?thesis by simp
    next
      assume "c \<in> set (chunks n (drop n xs))"
      with False "1.IH" show ?thesis by simp
    qed
  qed
qed

subsection \<open>The loop against the specification's evaluator\<close>

lemma eval_tokens_loop_evaluate:
  assumes nb: "0 < nb" and fit: "int (length tokens) + nb \<le> INT_MAX"
  shows "0 \<le> i \<Longrightarrow> - 2147483648 \<le> n_past w \<Longrightarrow>
         n_past w + (int (length tokens) - i) \<le> INT_MAX \<Longrightarrow>
         eval_tokens_loop E tokens nb (int (length tokens)) i w =
         Some (spec_evaluate E (chunks (nat nb) (drop (nat i) tokens)) w)"
proof (induction "length tokens - nat i" arbitrary: i w rule: less_induct)
  case less
  let ?len = "int (length tokens)"
  show ?case
  proof (cases "i < ?len")
    case False
    then have "drop (nat i) tokens = []" by simp
    with False show ?thesis
      by (subst eval_tokens_loop.simps) simp
  next
    case True
    define n_eval where "n_eval = (if ?len - i > nb then nb else ?len - i)"
    define c where "c = take (nat nb) (drop (nat i) tokens)"
    have ne: "drop (nat i) tokens \<noteq> []" using True less.prems by simp
    have c0: "cint ?len = ?len"
      using fit nb by (intro cint_id) (auto simp: INT_MAX_def)
    have c1: "cint (?len - i) = ?len - i"
      using True less.prems fit nb by (intro cint_id) (auto simp: INT_MAX_def)
    have lenc: "int (length c) = n_eval"
      using True less.prems nb by (auto simp: c_def n_eval_def min_def)
    have tk: "take (nat n_eval) (drop (nat i) tokens) = c"
      using True less.prems nb by (auto simp: c_def n_eval_def)
    have b: "llama_batch_get_one (drop (nat i) tokens) n_eval (n_past w) 0 =
             chunk_batch c (n_past w)"
      by (simp add: llama_batch_get_one_def chunk_batch_def tk lenc)
    have c2: "cint (i + nb) = i + nb"
      using True less.prems fit nb by (intro cint_id) (auto simp: INT_MAX_def)
    have npos: "0 < n_eval" "n_eval \<le> ?len - i" "n_eval \<le> nb"
      using True nb by (auto simp: n_eval_def)
    have c3: "cint (n_past w + n_eval) = n_past w + n_eval"
      using npos less.prems by (intro cint_id) (auto simp: INT_MAX_def)
    have dr: "drop (nat (i + nb)) tokens = drop (nat nb) (drop (nat i) tokens)"
      using less.prems nb by (simp add: nat_add_distrib add.commute)
    obtain rc e where d: "llama_decode E (g_ctx w) (chunk_batch c (n_past w)) = (rc, e)"
      by (cases "llama_decode E (g_ctx w) (chunk_batch c (n_past w))")
    show ?thesis
    proof (cases "rc = 0")
      case False
      then show ?thesis
        using True less.prems nb ne d
        apply (subst eval_tokens_loop.simps)
        apply (simp add: c0 c1 n_eval_def[symmetric] b Let_def chunks_Cons c_def[symmetric])
        done
    next
      case rc0: True
      let ?w' = "(emit [Decode (chunk_batch c (n_past w)) 0] (w\<lparr>g_ctx := e\<rparr>))
                   \<lparr>n_past := n_past w + n_eval\<rparr>"
      have IH: "eval_tokens_loop E tokens nb ?len (i + nb) ?w' =
            Some (spec_evaluate E (chunks (nat nb) (drop (nat (i + nb)) tokens)) ?w')"
        apply (rule less.hyps)
        using True less.prems nb npos by (auto simp: emit_def INT_MAX_def)
      show ?thesis
        using True less.prems nb ne d rc0 IH
        apply (subst eval_tokens_loop.simps)
        apply (simp add: c0 c1 n_eval_def[symmetric] b Let_def chunks_Cons c_def[symmetric]
                         c2 c3 dr emit_def lenc)
        done
    qed
  qed
qed

lemma eval_tokens_evaluate:
  assumes "0 < nb" and "int (length tokens) + nb \<le> INT_MAX"
    and "- 2147483648 \<le> n_past w" and "n_past w + int (length tokens) \<le> INT_MAX"
  shows "eval_tokens E tokens nb w = Some (spec_evaluate E (chunks (nat nb) tokens) w)"
proof -
  have "cint (int (length tokens)) = int (length tokens)"
    using assms by (intro cint_id) (auto simp: INT_MAX_def)
  then show ?thesis
    using eval_tokens_loop_evaluate [OF assms(1,2), of 0 w E] assms(3,4)
    by (simp add: eval_tokens_def)
qed

subsection \<open>What the specification's evaluator does\<close>

lemma accepted_decodes_append:
  "accepted_decodes pos (xs @ ys) =
   accepted_decodes pos xs @ accepted_decodes (pos + int (length (concat xs))) ys"
  by (induction xs arbitrary: pos) (simp_all add: add.assoc)

lemma evaluate_Return:
  "spec_evaluate E cs w = Return u w' \<Longrightarrow>
   trace w' = trace w @ accepted_decodes (n_past w) cs \<and>
   n_past w' = n_past w + int (length (concat cs)) \<and>
   g_got_sigint w' = g_got_sigint w \<and> FLAG_log_disable w' = FLAG_log_disable w"
proof (induction cs arbitrary: w)
  case Nil
  then show ?case by simp
next
  case (Cons c cs)
  obtain rc e where d: "llama_decode E (g_ctx w) (chunk_batch c (n_past w)) = (rc, e)"
    by (cases "llama_decode E (g_ctx w) (chunk_batch c (n_past w))")
  show ?case
  proof (cases "rc = 0")
    case False
    with Cons.prems d show ?thesis
      by (simp add: die_out_of_context_def Let_def)
  next
    case True
    let ?w1 = "(emit [Decode (chunk_batch c (n_past w)) 0] (w\<lparr>g_ctx := e\<rparr>))
                 \<lparr>n_past := n_past w + int (length c)\<rparr>"
    from Cons.prems d True have "spec_evaluate E cs ?w1 = Return u w'"
      by (simp add: emit_def Let_def)
    from Cons.IH [OF this] show ?thesis
      by (simp add: emit_def add.assoc)
  qed
qed

lemma evaluate_Exit:
  "spec_evaluate E cs w = Exit st w' \<Longrightarrow>
   st = 1 \<and>
   (\<exists>accepted failed rest rc.
      cs = accepted @ failed # rest \<and> rc \<noteq> 0 \<and>
      n_past w' = n_past w + int (length (concat accepted)) \<and>
      trace w' = trace w @ accepted_decodes (n_past w) accepted @
        [Decode (chunk_batch failed (n_past w')) rc,
         Stderr (out_of_context_message (n_past w') (llama_n_ctx_train E (g_ctx w')))] \<and>
      g_got_sigint w' = g_got_sigint w \<and> FLAG_log_disable w' = FLAG_log_disable w)"
proof (induction cs arbitrary: w)
  case Nil
  then show ?case by simp
next
  case (Cons c cs)
  obtain rc e where d: "llama_decode E (g_ctx w) (chunk_batch c (n_past w)) = (rc, e)"
    by (cases "llama_decode E (g_ctx w) (chunk_batch c (n_past w))")
  show ?case
  proof (cases "rc = 0")
    case False
    with Cons.prems d have w': "st = 1"
      "w' = emit [Stderr (out_of_context_message (n_past w) (llama_n_ctx_train E e))]
              (emit [Decode (chunk_batch c (n_past w)) rc] (w\<lparr>g_ctx := e\<rparr>))"
      by (auto simp: die_out_of_context_def Let_def emit_def)
    have "c # cs = [] @ c # cs \<and> rc \<noteq> 0 \<and>
      n_past w' = n_past w + int (length (concat ([] :: llama_token list list))) \<and>
      trace w' = trace w @ accepted_decodes (n_past w) [] @
        [Decode (chunk_batch c (n_past w')) rc,
         Stderr (out_of_context_message (n_past w') (llama_n_ctx_train E (g_ctx w')))] \<and>
      g_got_sigint w' = g_got_sigint w \<and> FLAG_log_disable w' = FLAG_log_disable w"
      using False by (simp add: w' emit_def)
    with w'(1) show ?thesis by blast
  next
    case True
    let ?w1 = "(emit [Decode (chunk_batch c (n_past w)) 0] (w\<lparr>g_ctx := e\<rparr>))
                 \<lparr>n_past := n_past w + int (length c)\<rparr>"
    from Cons.prems d True have "spec_evaluate E cs ?w1 = Exit st w'"
      by (simp add: emit_def Let_def)
    from Cons.IH [OF this] obtain accepted failed rest rc' where
      st: "st = 1" and cs: "cs = accepted @ failed # rest" and rc': "rc' \<noteq> 0" and
      np: "n_past w' = n_past ?w1 + int (length (concat accepted))" and
      tr: "trace w' = trace ?w1 @ accepted_decodes (n_past ?w1) accepted @
        [Decode (chunk_batch failed (n_past w')) rc',
         Stderr (out_of_context_message (n_past w') (llama_n_ctx_train E (g_ctx w')))]" and
      rest: "g_got_sigint w' = g_got_sigint ?w1" "FLAG_log_disable w' = FLAG_log_disable ?w1"
      by blast
    have "c # cs = (c # accepted) @ failed # rest \<and> rc' \<noteq> 0 \<and>
      n_past w' = n_past w + int (length (concat (c # accepted))) \<and>
      trace w' = trace w @ accepted_decodes (n_past w) (c # accepted) @
        [Decode (chunk_batch failed (n_past w')) rc',
         Stderr (out_of_context_message (n_past w') (llama_n_ctx_train E (g_ctx w')))] \<and>
      g_got_sigint w' = g_got_sigint w \<and> FLAG_log_disable w' = FLAG_log_disable w"
      using cs rc' np tr rest by (simp add: emit_def)
    with st show ?thesis by blast
  qed
qed

lemma evaluate_defined: "spec_evaluate E cs w \<noteq> Undefined_behaviour"
proof (induction cs arbitrary: w)
  case Nil
  show ?case by simp
next
  case (Cons c cs)
  then show ?case
    by (auto simp: die_out_of_context_def Let_def split: prod.splits)
qed

lemma accepted_tokens_append:
  "accepted_tokens (xs @ ys) = accepted_tokens xs + accepted_tokens ys"
  by (induction xs rule: accepted_tokens.induct) simp_all

lemma accepted_tokens_decodes:
  "accepted_tokens (accepted_decodes pos cs) = int (length (concat cs))"
  by (induction cs arbitrary: pos) (simp_all add: chunk_batch_def)

lemma evaluate_window:
  assumes "decode_contract E"
  shows "spec_evaluate E cs w = Return u w' \<or> spec_evaluate E cs w = Exit st w' \<Longrightarrow>
         n_past w \<le> llama_n_ctx E (g_ctx w) \<Longrightarrow>
         n_past w' \<le> llama_n_ctx E (g_ctx w') \<and>
         llama_n_ctx E (g_ctx w') = llama_n_ctx E (g_ctx w)"
proof (induction cs arbitrary: w)
  case Nil
  then show ?case by auto
next
  case (Cons c cs)
  obtain rc e where d: "llama_decode E (g_ctx w) (chunk_batch c (n_past w)) = (rc, e)"
    by (cases "llama_decode E (g_ctx w) (chunk_batch c (n_past w))")
  from assms have keep: "llama_n_ctx E e = llama_n_ctx E (g_ctx w)"
    using d unfolding decode_contract_def by (metis snd_conv)
  show ?case
  proof (cases "rc = 0")
    case False
    with Cons.prems d keep show ?thesis
      by (auto simp: die_out_of_context_def Let_def emit_def)
  next
    case True
    from assms d True have "\<not> llama_n_ctx E (g_ctx w) < n_past w + int (length c)"
      unfolding decode_contract_def
      by (metis fst_conv llama_batch.select_convs(1,3) chunk_batch_def)
    then have room: "n_past w + int (length c) \<le> llama_n_ctx E e"
      using keep by simp
    let ?w1 = "(emit [Decode (chunk_batch c (n_past w)) 0] (w\<lparr>g_ctx := e\<rparr>))
                 \<lparr>n_past := n_past w + int (length c)\<rparr>"
    from Cons.prems d True
    have "spec_evaluate E cs ?w1 = Return u w' \<or> spec_evaluate E cs ?w1 = Exit st w'"
      by (simp add: emit_def Let_def)
    from Cons.IH [OF this] room keep show ?thesis
      by (simp add: emit_def)
  qed
qed

lemma evaluate_accounted:
  assumes con: "decode_contract E" and acc: "accounted E w"
  shows "\<exists>w'. (spec_evaluate E cs w = Return () w' \<or> spec_evaluate E cs w = Exit 1 w') \<and>
              accounted E w' \<and> llama_n_ctx E (g_ctx w') = llama_n_ctx E (g_ctx w)"
proof (cases "spec_evaluate E cs w")
  case (Return u w')
  from evaluate_Return [OF Return] have
    tr: "trace w' = trace w @ accepted_decodes (n_past w) cs" and
    np: "n_past w' = n_past w + int (length (concat cs))"
    by simp_all
  from evaluate_window [OF con, of cs w u w'] Return acc have
    win: "n_past w' \<le> llama_n_ctx E (g_ctx w')"
         "llama_n_ctx E (g_ctx w') = llama_n_ctx E (g_ctx w)"
    by (simp_all add: accounted_def)
  have "accounted E w'"
    using acc win np tr
    by (simp add: accounted_def accepted_tokens_append accepted_tokens_decodes)
  with Return win show ?thesis by simp
next
  case (Exit st w')
  from evaluate_Exit [OF Exit] obtain accepted failed rest rc where
    st: "st = 1" and rc: "rc \<noteq> 0" and
    np: "n_past w' = n_past w + int (length (concat accepted))" and
    tr: "trace w' = trace w @ accepted_decodes (n_past w) accepted @
        [Decode (chunk_batch failed (n_past w')) rc,
         Stderr (out_of_context_message (n_past w') (llama_n_ctx_train E (g_ctx w')))]"
    by blast
  from evaluate_window [OF con, of cs w _ w' st] Exit acc have
    win: "n_past w' \<le> llama_n_ctx E (g_ctx w')"
         "llama_n_ctx E (g_ctx w') = llama_n_ctx E (g_ctx w)"
    by (simp_all add: accounted_def)
  have "accounted E w'"
    using acc win np tr rc
    by (simp add: accounted_def accepted_tokens_append accepted_tokens_decodes)
  with Exit st win show ?thesis by simp
next
  case Undefined_behaviour
  with evaluate_defined [of E cs w] show ?thesis by simp
qed

lemma eval_tokens_accounted_step:
  assumes "decode_contract E" and "accounted E w"
    and "0 < nb" and "int (length tokens) + nb \<le> INT_MAX"
    and "llama_n_ctx E (g_ctx w) + int (length tokens) \<le> INT_MAX"
  shows "\<exists>w'. (eval_tokens E tokens nb w = Some (Return () w') \<or>
               eval_tokens E tokens nb w = Some (Exit 1 w')) \<and>
              accounted E w' \<and> llama_n_ctx E (g_ctx w') = llama_n_ctx E (g_ctx w)"
proof -
  from assms(2) have "- 2147483648 \<le> n_past w" "n_past w \<le> llama_n_ctx E (g_ctx w)"
    by (simp_all add: accounted_def)
  with assms have "eval_tokens E tokens nb w = Some (spec_evaluate E (chunks (nat nb) tokens) w)"
    by (intro eval_tokens_evaluate) auto
  with evaluate_accounted [OF assms(1,2), of "chunks (nat nb) tokens"] show ?thesis
    by simp
qed

subsection \<open>Every exit is the overflow exit\<close>

lemma overflow_exit_simps [simp]:
  "overflow_exit E (Return a w)"
  "overflow_exit E Undefined_behaviour"
  by (simp_all add: overflow_exit_def)

lemma overflow_exit_Exit:
  "overflow_exit E (Exit st w :: ('a, 'e) outcome) \<Longrightarrow> overflow_exit E (Exit st w :: ('b, 'e) outcome)"
  by (simp add: overflow_exit_def)

lemma overflow_exit_die: "overflow_exit E (die_out_of_context E w)"
  by (simp add: overflow_exit_def die_out_of_context_def emit_def)

lemma and_then_exit:
  assumes "and_then r k = Some y"
    and "\<And>x. r = Some x \<Longrightarrow> overflow_exit E x"
    and "\<And>a w x. r = Some (Return a w) \<Longrightarrow> k a w = Some x \<Longrightarrow> overflow_exit E x"
  shows "overflow_exit E y"
proof (cases r)
  case None
  with assms(1) show ?thesis by (simp add: and_then_def)
next
  case (Some x)
  show ?thesis
  proof (cases x)
    case (Return a w)
    with Some assms(1) have "k a w = Some y" by (simp add: and_then_def)
    with Some Return show ?thesis by (intro assms(3)) auto
  next
    case (Exit st w)
    with Some assms(1) have "y = Exit st w" by (simp add: and_then_def)
    moreover from Some have "overflow_exit E x"
      by (rule assms(2))
    ultimately show ?thesis using Exit by (simp add: overflow_exit_def)
  next
    case Undefined_behaviour
    with Some assms(1) show ?thesis by (simp add: and_then_def)
  qed
qed

lemma eval_tokens_loop_exit:
  assumes "eval_tokens_loop E tokens nb N i w = Some y"
  shows "overflow_exit E y"
proof (rule eval_tokens_loop.raw_induct
         [where P = "\<lambda>E tokens nb N i w y. overflow_exit E y", OF _ assms], goal_cases)
  case (1 loop E tokens nb N i w y)
  from 1(2) show ?case
    by (auto simp: Let_def overflow_exit_die split: if_splits prod.splits dest: 1(1))
qed

lemma eval_tokens_exit: "eval_tokens E tokens nb w = Some y \<Longrightarrow> overflow_exit E y"
  unfolding eval_tokens_def by (rule eval_tokens_loop_exit)

lemma generation_loop_exit:
  assumes "generation_loop E params sigs w = Some y"
  shows "overflow_exit E y"
proof (rule generation_loop.raw_induct
         [where P = "\<lambda>E params sigs w y. overflow_exit E y", OF _ assms], goal_cases)
  case (1 loop E params sigs w y)
  from 1(2) show ?case
    by (auto simp: Let_def eval_id_def split: if_splits prod.splits option.splits outcome.splits
             dest: 1(1) eval_tokens_exit)
qed

lemma generate_exit: "generate E params sigs w = Some y \<Longrightarrow> overflow_exit E y"
  unfolding generate_def
  by (erule and_then_exit) (auto dest: generation_loop_exit)

lemma eval_string_exit: "eval_string E str nb a p w = Some y \<Longrightarrow> overflow_exit E y"
  unfolding eval_string_unfold by (rule eval_tokens_exit)

lemma chat_reply_exit: "chat_reply E params line sigs w = Some y \<Longrightarrow> overflow_exit E y"
  unfolding chat_reply_def Let_def
  by (erule and_then_exit) (auto dest: eval_string_exit generate_exit)

lemma handle_command_no_exit: "handle_command E command w \<noteq> Exit st w'"
  by (simp add: handle_command_def Let_def split: list.splits)

lemma chatbot_turn_exit: "chatbot_turn E params line sigs w = Some y \<Longrightarrow> overflow_exit E y"
  unfolding chatbot_turn_def
  by (auto split: if_splits outcome.splits bool.splits
           dest: chat_reply_exit simp: handle_command_no_exit)

lemma chatbot_repl_exit: "chatbot_repl E params input w = Some y \<Longrightarrow> overflow_exit E y"
proof (induction input arbitrary: w y)
  case Nil
  then show ?case by auto
next
  case (Cons a input)
  obtain line sigs where a: "a = (line, sigs)" by (cases a)
  from Cons.prems show ?case
    unfolding a chatbot_repl.simps
    by (rule and_then_exit) (auto intro: Cons.IH dest: chatbot_turn_exit)
qed

lemma load_prompt_exit: "load_prompt E params w = Some y \<Longrightarrow> overflow_exit E y"
  unfolding load_prompt_def Let_def
  by (erule and_then_exit) (auto dest: eval_string_exit)

lemma chatbot_main_exit:
  assumes "chatbot_main E parsed model_loaded context_created input w = Some y"
  shows "overflow_exit E y"
proof (cases parsed)
  case None
  with assms show ?thesis by (auto simp: chatbot_main_def)
next
  case (Some params0)
  show ?thesis
  proof (cases "model_loaded \<and> context_created")
    case False
    with assms Some show ?thesis by (auto simp: chatbot_main_def split: if_splits)
  next
    case True
    let ?p = "if prompt params0 = [] then params0\<lparr>prompt := default_prompt\<rparr> else params0"
    from assms Some True have
      "and_then (load_prompt E ?p w)
         (\<lambda>_ w1. and_then (chatbot_repl E ?p input w1) (\<lambda>_ w2. Some (Return 0 w2))) = Some y"
      by (simp add: chatbot_main_def Let_def)
    then show ?thesis
    proof (rule and_then_exit, goal_cases)
      case (1 x)
      then show ?case by (auto dest: load_prompt_exit simp: overflow_exit_def split: outcome.splits)
    next
      case (2 a w1 x)
      from 2(2) show ?case
      proof (rule and_then_exit, goal_cases)
        case (1 x)
        then show ?case by (auto dest: chatbot_repl_exit simp: overflow_exit_def split: outcome.splits)
      next
        case (2 a w x)
        then show ?case by auto
      qed
    qed
  qed
qed

subsection \<open>Commands\<close>

lemma isalpha_not_isspace: "isalpha c \<Longrightarrow> \<not> isspace c"
proof
  assume a: "isalpha c" and s: "isspace c"
  from a have "(65::nat) \<le> of_char c" by (auto simp: isalpha_def)
  moreover from s have "(of_char c :: nat) \<le> 32"
  proof (cases "c = CHR '' ''")
    case True
    then show ?thesis by simp
  next
    case False
    with s show ?thesis by (simp add: isspace_def)
  qed
  ultimately show False by simp
qed

lemma iss_words_Cons:
  "\<not> isspace c \<Longrightarrow>
   iss_words (c # r) = (c # takeWhile (\<lambda>x. \<not> isspace x) r) # iss_words (dropWhile (\<lambda>x. \<not> isspace x) r)"
  by (subst iss_words.simps) simp

lemma iss_words_Nil [simp]: "iss_words [] = []"
  by (subst iss_words.simps) simp

lemma iss_words_space: "isspace c \<Longrightarrow> iss_words (c # r) = iss_words r"
  by (subst iss_words.simps, subst (2) iss_words.simps) simp

lemma is_command_iff:
  "(c_at command 0 = CHR ''/'' \<and> isalpha (c_at command 1)) \<longleftrightarrow>
   (\<exists>c r. command = CHR ''/'' # c # r \<and> isalpha c)"
proof (cases command)
  case Nil
  then show ?thesis by (simp add: c_at_def)
next
  case (Cons a s)
  show ?thesis
  proof (cases s)
    case Nil
    with Cons show ?thesis by (simp add: c_at_def isalpha_def)
  next
    case (Cons b t)
    with \<open>command = a # s\<close> show ?thesis by (auto simp: c_at_def)
  qed
qed

lemma handle_command_defined: "handle_command E command w \<noteq> Undefined_behaviour"
proof (cases "c_at command 0 = CHR ''/'' \<and> isalpha (c_at command 1)")
  case False
  then show ?thesis by (simp add: handle_command_def)
next
  case True
  then obtain c r where "command = CHR ''/'' # c # r" "isalpha c"
    using is_command_iff by blast
  then show ?thesis
    using True by (simp add: handle_command_def iss_words_Cons isalpha_not_isspace Let_def)
qed

lemma stats_words:
  assumes "rest = [] \<or> isspace (hd rest)"
  shows "iss_words (''stats'' @ rest) = ''stats'' # iss_words rest"
proof (cases rest)
  case Nil
  then show ?thesis by (simp add: iss_words_Cons isspace_def)
next
  case (Cons a r)
  with assms show ?thesis by (simp add: iss_words_Cons isspace_def)
qed

subsection \<open>The renderer's part of the trace\<close>

lemma ends_in_simps [simp]:
  "ends_in (Return a w) P = P w"
  "ends_in (Exit st w) P = P w"
  "ends_in Undefined_behaviour P"
  by (simp_all add: ends_in_def)

lemma turn_events_append [simp]: "turn_events (xs @ ys) = turn_events xs @ turn_events ys"
  by (simp add: turn_events_def)

lemma turn_events_simps [simp]:
  "turn_events [] = []"
  "turn_events (Apply_template tmpl chat add_ass # tr) = Apply_template tmpl chat add_ass # turn_events tr"
  "turn_events (Tokenize str a p # tr) = Tokenize str a p # turn_events tr"
  "turn_events (Stdout s # tr) = turn_events tr"
  "turn_events (Stderr s # tr) = turn_events tr"
  "turn_events (Fflush_stdout # tr) = turn_events tr"
  "turn_events (Decode b rc # tr) = turn_events tr"
  "turn_events (Sample t # tr) = turn_events tr"
  "turn_events (Accept t # tr) = turn_events tr"
  "turn_events (Print_timings d # tr) = turn_events tr"
  "turn_events (Bestline pr # tr) = turn_events tr"
  by (simp_all add: turn_events_def)

lemma and_then_ends_in:
  assumes "and_then r k = Some y"
    and "\<And>x. r = Some x \<Longrightarrow> ends_in x (\<lambda>w'. Q w')"
    and "\<And>a w x. r = Some (Return a w) \<Longrightarrow> Q w \<Longrightarrow> k a w = Some x \<Longrightarrow> ends_in x P"
    and "\<And>w. Q w \<Longrightarrow> P w"
  shows "ends_in y P"
proof (cases r)
  case None
  with assms(1) show ?thesis by (simp add: and_then_def)
next
  case (Some x)
  from assms(2) [OF Some] have q: "ends_in x Q" .
  show ?thesis
  proof (cases x)
    case (Return a w)
    with Some assms(1) have "k a w = Some y" by (simp add: and_then_def)
    moreover from q Return have "Q w" by simp
    ultimately show ?thesis using Some Return by (intro assms(3)) auto
  next
    case (Exit st w)
    with Some assms(1) have "y = Exit st w" by (simp add: and_then_def)
    moreover from q Exit have "Q w" by simp
    ultimately show ?thesis using assms(4) by simp
  next
    case Undefined_behaviour
    with Some assms(1) show ?thesis by (simp add: and_then_def)
  qed
qed

lemma eval_tokens_loop_turn_events:
  assumes "eval_tokens_loop E tokens nb N i w = Some y"
  shows "ends_in y (\<lambda>w'. turn_events (trace w') = turn_events (trace w))"
proof (rule eval_tokens_loop.raw_induct
         [where P = "\<lambda>E tokens nb N i w y.
            ends_in y (\<lambda>w'. turn_events (trace w') = turn_events (trace w))", OF _ assms],
       goal_cases)
  case (1 loop E tokens nb N i w y)
  from 1(2) show ?case
    by (auto simp: Let_def die_out_of_context_def emit_def
             split: if_splits prod.splits dest!: 1(1))
qed

lemma eval_tokens_turn_events:
  "eval_tokens E tokens nb w = Some y \<Longrightarrow>
   ends_in y (\<lambda>w'. turn_events (trace w') = turn_events (trace w))"
  unfolding eval_tokens_def by (rule eval_tokens_loop_turn_events)

lemma generation_loop_turn_events:
  assumes "generation_loop E params sigs w = Some y"
  shows "ends_in y (\<lambda>w'. turn_events (trace w') = turn_events (trace w))"
proof (rule generation_loop.raw_induct
         [where P = "\<lambda>E params sigs w y.
            ends_in y (\<lambda>w'. turn_events (trace w') = turn_events (trace w))", OF _ assms],
       goal_cases)
  case (1 loop E params sigs w y)
  have d: "trace (deliver sigs w) = trace w"
    by (simp add: deliver_def on_sigint_def split: list.splits bool.splits)
  from 1(2) show ?case
    by (auto simp: Let_def eval_id_def emit_def d
             split: if_splits prod.splits option.splits outcome.splits
             dest!: 1(1) eval_tokens_turn_events)
qed

lemma generate_turn_events:
  assumes "generate E params sigs w = Some y"
  shows "ends_in y (\<lambda>w'. turn_events (trace w') = turn_events (trace w))"
  using assms unfolding generate_def
proof (rule and_then_ends_in [where Q = "\<lambda>w'. turn_events (trace w') = turn_events (trace w)"],
       goal_cases)
  case (1 x)
  then show ?case by (rule generation_loop_turn_events)
next
  case (2 a w' x)
  then show ?case by (auto simp: emit_def)
next
  case (3 w')
  then show ?case .
qed

lemma chat_reply_turn_events:
  assumes "chat_reply E params line sigs w = Some y"
  shows "ends_in y (\<lambda>w'. turn_events (trace w') = turn_events (trace w) @
           [Apply_template (chat_template params) [(''user'', line)] True,
            Tokenize (c_str (llama_chat_apply_template E (g_ctx w) (chat_template params)
                        [(''user'', line)] True)) False True])"
  using assms unfolding chat_reply_def Let_def
proof (rule and_then_ends_in [where Q = "\<lambda>w'. turn_events (trace w') = turn_events (trace w) @
           [Apply_template (chat_template params) [(''user'', line)] True,
            Tokenize (c_str (llama_chat_apply_template E (g_ctx w) (chat_template params)
                        [(''user'', line)] True)) False True]"], goal_cases)
  case (1 x)
  then show ?case
    by (auto simp: eval_string_unfold emit_def ends_in_def dest!: eval_tokens_turn_events
             split: outcome.splits)
next
  case (2 a w' x)
  from generate_turn_events [OF 2(3)] 2(2) show ?case
    by (auto simp: ends_in_def split: outcome.splits)
next
  case (3 w')
  then show ?case .
qed

lemma load_prompt_turn_events:
  assumes "load_prompt E params w = Some y"
  shows "ends_in y (\<lambda>w'. turn_events (trace w') = turn_events (trace w) @
           [Apply_template (chat_template params) [(''system'', prompt params)] False,
            Tokenize (c_str (llama_chat_apply_template E (g_ctx w) (chat_template params)
                        [(''system'', prompt params)] False))
                     (llama_should_add_bos_token E (g_ctx w)) True])"
  using assms unfolding load_prompt_def Let_def
proof (rule and_then_ends_in [where Q = "\<lambda>w'. turn_events (trace w') = turn_events (trace w) @
           [Apply_template (chat_template params) [(''system'', prompt params)] False,
            Tokenize (c_str (llama_chat_apply_template E (g_ctx w) (chat_template params)
                        [(''system'', prompt params)] False))
                     (llama_should_add_bos_token E (g_ctx w)) True]"], goal_cases)
  case (1 x)
  then show ?case
    by (auto simp: eval_string_unfold emit_def ends_in_def print_ephemeral_def
             dest!: eval_tokens_turn_events split: outcome.splits)
next
  case (2 a w' x)
  then show ?case by (auto simp: emit_def clear_ephemeral_def)
next
  case (3 w')
  then show ?case .
qed

subsection \<open>Dispatch\<close>

lemma slash_alpha_not_empty: "slash_alpha line \<Longrightarrow> \<not> is_empty line"
proof -
  assume "slash_alpha line"
  then obtain c r where "line = CHR ''/'' # c # r"
    using is_command_iff by blast
  then show ?thesis by (simp add: isspace_def)
qed

lemma handle_command_True:
  assumes "slash_alpha line"
  shows "\<exists>w'. handle_command E line w = Return True w' \<and>
              turn_events (trace w') = turn_events (trace w) \<and>
              n_past w' = n_past w \<and> g_ctx w' = g_ctx w \<and> g_got_sigint w' = g_got_sigint w"
proof -
  from assms obtain c r where l: "line = CHR ''/'' # c # r" and c: "isalpha c"
    using is_command_iff by blast
  then show ?thesis
    using assms
    by (simp add: handle_command_def iss_words_Cons isalpha_not_isspace Let_def emit_def)
qed

subsection \<open>The generation loop\<close>


lemma deliver_reset: "(deliver sigs w)\<lparr>g_got_sigint := 0\<rparr> = w\<lparr>g_got_sigint := 0\<rparr>"
  by (auto simp: deliver_def on_sigint_def split: list.splits bool.splits)

lemma chunks_single: "chunks (Suc 0) [x] = [[x]]"
  by (simp add: chunks_Cons)

lemma eval_id_evaluate:
  assumes "- 2147483648 \<le> n_past w" and "n_past w < INT_MAX"
  shows "eval_id E tok w = Some (spec_evaluate E [[tok]] w)"
proof -
  have "eval_tokens E [tok] 1 w = Some (spec_evaluate E (chunks (nat 1) [tok]) w)"
    using assms by (intro eval_tokens_evaluate) (auto simp: INT_MAX_def)
  then show ?thesis
    by (simp add: eval_id_def chunks_single)
qed

subsection \<open>Accounting through the session\<close>

lemma kept_Return: "accounted E w' \<Longrightarrow> llama_n_ctx E (g_ctx w') = llama_n_ctx E (g_ctx w) \<Longrightarrow>
  stays_accounted E w (Return a w')"
  by (auto simp: stays_accounted_def)

lemma kept_trans:
  "stays_accounted E w (Return a v) \<Longrightarrow> stays_accounted E v r \<Longrightarrow> stays_accounted E w r"
  by (auto simp: stays_accounted_def)

lemma kept_Exit_any:
  "stays_accounted E w (Exit st v :: ('a, 'e) outcome) \<Longrightarrow> stays_accounted E w (Exit st v :: ('b, 'e) outcome)"
  by (auto simp: stays_accounted_def)

lemma accounted_frame:
  "accounted E w \<Longrightarrow> n_past w' = n_past w \<Longrightarrow>
   llama_n_ctx E (g_ctx w') = llama_n_ctx E (g_ctx w) \<Longrightarrow>
   accepted_tokens (trace w') = accepted_tokens (trace w) \<Longrightarrow> accounted E w'"
  by (simp add: accounted_def)

lemma and_then_kept:
  assumes "and_then r k = Some y"
    and "\<And>x. r = Some x \<Longrightarrow> stays_accounted E w x"
    and "\<And>a v x. r = Some (Return a v) \<Longrightarrow> accounted E v \<Longrightarrow>
           llama_n_ctx E (g_ctx v) = llama_n_ctx E (g_ctx w) \<Longrightarrow> k a v = Some x \<Longrightarrow> stays_accounted E v x"
  shows "stays_accounted E w y"
proof (cases r)
  case None
  with assms(1) show ?thesis by (simp add: and_then_def)
next
  case (Some x)
  from assms(2) [OF Some] have kx: "stays_accounted E w x" .
  show ?thesis
  proof (cases x)
    case (Return a v)
    with Some assms(1) have "k a v = Some y" by (simp add: and_then_def)
    moreover from kx Return have "accounted E v" "llama_n_ctx E (g_ctx v) = llama_n_ctx E (g_ctx w)"
      by (auto simp: stays_accounted_def)
    ultimately have "stays_accounted E v y" using Some Return by (intro assms(3)) auto
    with kx Return show ?thesis by (auto intro: kept_trans)
  next
    case (Exit st v)
    with Some assms(1) have "y = Exit st v" by (simp add: and_then_def)
    with kx Exit show ?thesis by (auto simp: stays_accounted_def)
  next
    case Undefined_behaviour
    with kx show ?thesis by (simp add: stays_accounted_def)
  qed
qed

lemma cint_range: "- 2147483648 \<le> cint x \<and> cint x < 2147483648"
  by (simp add: cint_def)

lemma below_cint_length:
  assumes "i < cint (int (length xs))" and "i < 1073741824"
  shows "i < int (length xs)"
proof (cases "int (length xs) < 2147483648")
  case True
  then have "cint (int (length xs)) = int (length xs)"
    by (intro cint_id) auto
  with assms(1) show ?thesis by simp
next
  case False
  with assms(2) show ?thesis by simp
qed

lemma decode_contractD:
  assumes "decode_contract E" and "llama_decode E e b = (rc, e')"
  shows "llama_n_ctx E e' = llama_n_ctx E e"
    and "rc = 0 \<Longrightarrow> all_pos_0 b + n_tokens b \<le> llama_n_ctx E e"
proof -
  from assms(1) have *: "llama_n_ctx E e < all_pos_0 b + n_tokens b \<longrightarrow> fst (llama_decode E e b) \<noteq> 0"
    "llama_n_ctx E (snd (llama_decode E e b)) = llama_n_ctx E e"
    unfolding decode_contract_def by blast+
  from *(2) assms(2) show "llama_n_ctx E e' = llama_n_ctx E e" by simp
  from *(1) assms(2) show "rc = 0 \<Longrightarrow> all_pos_0 b + n_tokens b \<le> llama_n_ctx E e"
    by auto
qed

lemma eval_tokens_loop_kept:
  assumes run: "eval_tokens_loop E tokens nb N i w = Some y"
  shows "decode_contract E \<longrightarrow> llama_n_ctx E (g_ctx w) < 1073741824 \<longrightarrow>
         0 < nb \<longrightarrow> nb \<le> INT_MAX \<longrightarrow> N = cint (int (length tokens)) \<longrightarrow> accounted E w \<longrightarrow>
         (i < N \<longrightarrow> 0 \<le> i \<and> i \<le> n_past w \<and> (i = 0 \<or> nb \<le> i)) \<longrightarrow> stays_accounted E w y"
proof (rule eval_tokens_loop.raw_induct
         [where P = "\<lambda>E tokens nb N i w y.
            decode_contract E \<longrightarrow> llama_n_ctx E (g_ctx w) < 1073741824 \<longrightarrow>
            0 < nb \<longrightarrow> nb \<le> INT_MAX \<longrightarrow> N = cint (int (length tokens)) \<longrightarrow> accounted E w \<longrightarrow>
            (i < N \<longrightarrow> 0 \<le> i \<and> i \<le> n_past w \<and> (i = 0 \<or> nb \<le> i)) \<longrightarrow> stays_accounted E w y", OF _ run],
       goal_cases)
  case (1 loop E tokens nb N i w y)
  show ?case
  proof (intro impI)
    assume con: "decode_contract E" and small: "llama_n_ctx E (g_ctx w) < 1073741824"
      and nb: "0 < nb" "nb \<le> INT_MAX" and N: "N = cint (int (length tokens))"
      and acc: "accounted E w"
      and inv: "i < N \<longrightarrow> 0 \<le> i \<and> i \<le> n_past w \<and> (i = 0 \<or> nb \<le> i)"
    show "stays_accounted E w y"
    proof (cases "i < N")
      case False
      with 1(2) have "y = Return () w" by simp
      with acc show ?thesis by (simp add: stays_accounted_def)
    next
      case True
      with inv have i: "0 \<le> i" "i \<le> n_past w" "i = 0 \<or> nb \<le> i" by simp_all
      from acc have np: "0 \<le> n_past w" "n_past w \<le> llama_n_ctx E (g_ctx w)"
        "n_past w = accepted_tokens (trace w)"
        by (simp_all add: accounted_def)
      from i np small have i30: "i < 1073741824" by simp
      from cint_range [of "int (length tokens)"] N have Nr: "N < 2147483648" by simp
      have c1: "cint (cint (int (length tokens)) - i) = N - i"
        using True i Nr N by (intro cint_id [THEN trans]) auto
      let ?n_eval = "if nb < N - i then nb else N - i"
      have ne: "0 < ?n_eval" "?n_eval \<le> nb" "?n_eval \<le> N - i"
        using True nb by auto
      have inb: "0 \<le> i \<and> i < int (length tokens)"
        using i True N i30 below_cint_length [of i tokens] by simp
      let ?b = "llama_batch_get_one (drop (nat i) tokens) ?n_eval (n_past w) 0"
      have bt: "n_tokens ?b = ?n_eval" "all_pos_0 ?b = n_past w"
        by (simp_all add: llama_batch_get_one_def)
      obtain rc e where d: "llama_decode E (g_ctx w) ?b = (rc, e)"
        by (cases "llama_decode E (g_ctx w) ?b")
      from decode_contractD(1) [OF con d] have keep: "llama_n_ctx E e = llama_n_ctx E (g_ctx w)" .
      let ?w1 = "emit [Decode ?b rc] (w\<lparr>g_ctx := e\<rparr>)"
      from 1(2) True inb d have body:
        "(if rc \<noteq> 0 then Some (die_out_of_context E ?w1)
          else loop E tokens nb N (cint (i + nb)) (?w1\<lparr>n_past := cint (n_past ?w1 + ?n_eval)\<rparr>)) =
         Some y"
        by (simp add: Let_def c1)
      show ?thesis
      proof (cases "rc = 0")
        case False
        with body have y: "y = die_out_of_context E ?w1" by simp
        have "accounted E (emit [Stderr (out_of_context_message (n_past ?w1)
                 (llama_n_ctx_train E (g_ctx ?w1)))] ?w1)"
          using acc
          by (rule accounted_frame) (use False in \<open>simp_all add: emit_def accepted_tokens_append keep\<close>)
        then show ?thesis
          by (simp add: y die_out_of_context_def stays_accounted_def emit_def keep)
      next
        case rc0: True
        from decode_contractD(2) [OF con d rc0]
        have "all_pos_0 ?b + n_tokens ?b \<le> llama_n_ctx E (g_ctx w)" .
        then have room: "n_past w + ?n_eval \<le> llama_n_ctx E (g_ctx w)"
          unfolding bt .
        have c3: "cint (n_past w + ?n_eval) = n_past w + ?n_eval"
          using room small np ne by (intro cint_id) auto
        have c2: "cint (i + nb) = i + nb"
          using i i30 nb by (intro cint_id) (auto simp: INT_MAX_def)
        let ?w' = "?w1\<lparr>n_past := n_past w + ?n_eval\<rparr>"
        from body rc0 have next_call: "loop E tokens nb N (i + nb) ?w' = Some y"
          by (simp add: c2 c3 emit_def)
        have acc': "accounted E ?w'"
          using np room ne rc0
          by (simp add: accounted_def emit_def accepted_tokens_append keep llama_batch_get_one_def)
        have inv': "i + nb < N \<longrightarrow> 0 \<le> i + nb \<and> i + nb \<le> n_past ?w' \<and> (i + nb = 0 \<or> nb \<le> i + nb)"
        proof
          assume "i + nb < N"
          then have "?n_eval = nb" by simp
          with i nb show "0 \<le> i + nb \<and> i + nb \<le> n_past ?w' \<and> (i + nb = 0 \<or> nb \<le> i + nb)"
            by (simp add: emit_def)
        qed
        have "stays_accounted E ?w' y"
          using 1(1) [OF next_call] con small nb N acc' inv' keep
          by (simp add: emit_def)
        then show ?thesis
          by (simp add: stays_accounted_def emit_def keep)
      qed
    qed
  qed
qed

lemma eval_tokens_kept_any:
  assumes "decode_contract E" and "llama_n_ctx E (g_ctx w) < 1073741824"
    and "0 < nb" and "nb \<le> INT_MAX" and "accounted E w"
    and "eval_tokens E tokens nb w = Some y"
  shows "stays_accounted E w y"
  using eval_tokens_loop_kept [of E tokens nb "cint (int (length tokens))" 0 w y] assms
  by (simp add: eval_tokens_def accounted_def)


lemma eval_string_kept:
  assumes "decode_contract E" and "2 * llama_n_ctx E (g_ctx w) \<le> INT_MAX"
    and "0 < nb" and "nb \<le> INT_MAX" and "accounted E w"
    and "eval_string E str nb a p w = Some y"
  shows "stays_accounted E w y"
proof -
  let ?w = "emit [Tokenize (c_str str) a p] w"
  have acc: "accounted E ?w"
    using assms(5) by (rule accounted_frame) (simp_all add: emit_def accepted_tokens_append)
  have small: "llama_n_ctx E (g_ctx ?w) < 1073741824"
    using assms(2) by (simp add: emit_def INT_MAX_def)
  from assms(6) have "eval_tokens E (llama_tokenize E (g_ctx w) (c_str str) a p) nb ?w = Some y"
    by (simp add: eval_string_unfold)
  from eval_tokens_kept_any [OF assms(1) small assms(3,4) acc this] show ?thesis
    by (simp add: stays_accounted_def emit_def)
qed

lemma eval_id_kept:
  assumes "decode_contract E" and "2 * llama_n_ctx E (g_ctx w) \<le> INT_MAX" and "accounted E w"
    and "eval_id E tok w = Some y"
  shows "stays_accounted E w y"
proof -
  have small: "llama_n_ctx E (g_ctx w) < 1073741824"
    using assms(2) by (simp add: INT_MAX_def)
  from assms(4) have "eval_tokens E [tok] 1 w = Some y" by (simp add: eval_id_def)
  from eval_tokens_kept_any [OF assms(1) small _ _ assms(3) this] show ?thesis
    by (simp add: INT_MAX_def)
qed

lemma generation_loop_kept:
  assumes run: "generation_loop E params sigs w = Some y"
  shows "decode_contract E \<longrightarrow> window_fixed E \<longrightarrow> 2 * llama_n_ctx E (g_ctx w) \<le> INT_MAX \<longrightarrow>
         accounted E w \<longrightarrow> stays_accounted E w y"
proof (rule generation_loop.raw_induct
         [where P = "\<lambda>E params sigs w y. decode_contract E \<longrightarrow> window_fixed E \<longrightarrow>
            2 * llama_n_ctx E (g_ctx w) \<le> INT_MAX \<longrightarrow> accounted E w \<longrightarrow> stays_accounted E w y", OF _ run],
       goal_cases)
  case (1 loop E params sigs w y)
  show ?case
  proof (intro impI)
    assume con: "decode_contract E" and wfix: "window_fixed E"
      and small: "2 * llama_n_ctx E (g_ctx w) \<le> INT_MAX" and acc: "accounted E w"
    let ?w = "deliver sigs w"
    have accd: "accounted E ?w"
      using acc by (rule accounted_frame)
        (auto simp: deliver_def on_sigint_def split: list.splits bool.splits)
    have ctxd: "g_ctx ?w = g_ctx w"
      by (auto simp: deliver_def on_sigint_def split: list.splits bool.splits)
    show "stays_accounted E w y"
    proof (cases "g_got_sigint ?w \<noteq> 0")
      case True
      with 1(2) have "y = Return () ?w" by (simp add: Let_def)
      with accd ctxd show ?thesis by (simp add: stays_accounted_def)
    next
      case False
      obtain tok e1 where s: "llama_sampling_sample E (g_ctx ?w) = (tok, e1)"
        by (cases "llama_sampling_sample E (g_ctx ?w)")
      let ?w1 = "emit [Sample tok] (?w\<lparr>g_ctx := e1\<rparr>)"
      let ?w2 = "emit [Accept tok] (?w1\<lparr>g_ctx := llama_sampling_accept E (g_ctx ?w1) tok True\<rparr>)"
      let ?w3 = "emit [Stdout (c_str (llama_token_to_piece E (g_ctx ?w2) tok (special params))),
                       Fflush_stdout] ?w2"
      from wfix have "llama_n_ctx E (snd (llama_sampling_sample E (g_ctx ?w))) =
                      llama_n_ctx E (g_ctx ?w)"
        unfolding window_fixed_def by blast
      with s have n1: "llama_n_ctx E e1 = llama_n_ctx E (g_ctx ?w)" by simp
      from wfix have n2: "llama_n_ctx E (llama_sampling_accept E e1 tok True) = llama_n_ctx E e1"
        unfolding window_fixed_def by blast
      have acc2: "accounted E ?w2"
        using accd by (rule accounted_frame)
          (simp_all add: emit_def accepted_tokens_append n1 n2)
      have acc3: "accounted E ?w3"
        using acc2 by (rule accounted_frame) (simp_all add: emit_def accepted_tokens_append)
      have ctx2: "llama_n_ctx E (g_ctx ?w2) = llama_n_ctx E (g_ctx w)"
        by (simp add: emit_def n1 n2 ctxd)
      have ctx3: "llama_n_ctx E (g_ctx ?w3) = llama_n_ctx E (g_ctx w)"
        using ctx2 by (simp add: emit_def)
      show ?thesis
      proof (cases "llama_token_is_eog E (g_ctx ?w2) tok")
        case True
        with 1(2) False s have "y = Return () ?w2" by (simp add: Let_def)
        with acc2 ctx2 show ?thesis by (simp add: stays_accounted_def)
      next
        case neog: False
        from 1(2) False s neog have body:
          "(case eval_id E tok ?w3 of
              None \<Rightarrow> None
            | Some (Return u w4) \<Rightarrow> loop E params (tl sigs) w4
            | Some (Exit c w4) \<Rightarrow> Some (Exit c w4)
            | Some Undefined_behaviour \<Rightarrow> Some Undefined_behaviour) = Some y"
          by (simp add: Let_def)
        then obtain x where x: "eval_id E tok ?w3 = Some x"
          by (cases "eval_id E tok ?w3") auto
        from small ctx3 have small3: "2 * llama_n_ctx E (g_ctx ?w3) \<le> INT_MAX" by simp
        from eval_id_kept [OF con small3 acc3 x] have kx: "stays_accounted E ?w3 x" .
        show ?thesis
        proof (cases x)
          case (Return u w4)
          with body x have "loop E params (tl sigs) w4 = Some y" by simp
          moreover from kx Return have a4: "accounted E w4"
            "llama_n_ctx E (g_ctx w4) = llama_n_ctx E (g_ctx ?w3)"
            by (auto simp: stays_accounted_def)
          ultimately have "stays_accounted E w4 y"
            using 1(1) con wfix small ctx3 by simp
          with a4 ctx3 show ?thesis by (auto simp: stays_accounted_def)
        next
          case (Exit c w4)
          with body x have "y = Exit c w4" by simp
          with kx Exit ctx3 show ?thesis by (auto simp: stays_accounted_def)
        next
          case Undefined_behaviour
          with kx show ?thesis by (simp add: stays_accounted_def)
        qed
      qed
    qed
  qed
qed

lemma generate_kept:
  assumes "decode_contract E" and "window_fixed E" and "2 * llama_n_ctx E (g_ctx w) \<le> INT_MAX"
    and "accounted E w" and "generate E params sigs w = Some y"
  shows "stays_accounted E w y"
  using assms(5) unfolding generate_def
proof (rule and_then_kept, goal_cases)
  case (1 x)
  from generation_loop_kept [OF this] assms(1-4) show ?case by blast
next
  case (2 a v x)
  have "accounted E (emit [Stdout [NL]] (v\<lparr>g_got_sigint := 0\<rparr>))"
    using 2(2) by (rule accounted_frame) (simp_all add: emit_def accepted_tokens_append)
  with 2(4) show ?case by (auto simp: stays_accounted_def emit_def)
qed

lemma chat_reply_kept:
  assumes "decode_contract E" and "window_fixed E" and "2 * llama_n_ctx E (g_ctx w) \<le> INT_MAX"
    and "0 < n_batch params" and "n_batch params \<le> INT_MAX"
    and "accounted E w" and "chat_reply E params line sigs w = Some y"
  shows "stays_accounted E w y"
proof -
  let ?w1 = "emit [Apply_template (chat_template params) [(''user'', line)] True] w"
  have a1: "accounted E ?w1"
    using assms(6) by (rule accounted_frame) (simp_all add: emit_def accepted_tokens_append)
  have s1: "2 * llama_n_ctx E (g_ctx ?w1) \<le> INT_MAX"
    using assms(3) by (simp add: emit_def)
  from assms(7) have "stays_accounted E ?w1 y"
    unfolding chat_reply_def Let_def
  proof (rule and_then_kept, goal_cases)
    case (1 x)
    from eval_string_kept [OF assms(1) s1 assms(4,5) a1 this] show ?case .
  next
    case (2 a v x)
    from s1 2(3) have "2 * llama_n_ctx E (g_ctx v) \<le> INT_MAX" by simp
    from generate_kept [OF assms(1,2) this 2(2,4)] show ?case .
  qed
  then show ?thesis by (simp add: stays_accounted_def emit_def)
qed

lemma handle_command_kept:
  assumes "accounted E w"
  shows "stays_accounted E w (handle_command E line w)"
proof (cases "slash_alpha line")
  case False
  with assms show ?thesis by (simp add: handle_command_def kept_Return)
next
  case True
  then obtain c r where l: "line = CHR ''/'' # c # r" and c: "isalpha c"
    using is_command_iff by blast
  have "\<exists>w'. handle_command E line w = Return True w' \<and> n_past w' = n_past w \<and>
             g_ctx w' = g_ctx w \<and> accepted_tokens (trace w') = accepted_tokens (trace w)"
    using True l c
    by (simp add: handle_command_def iss_words_Cons isalpha_not_isspace Let_def emit_def
                  accepted_tokens_append)
  then obtain w' where w': "handle_command E line w = Return True w'" "n_past w' = n_past w"
    "g_ctx w' = g_ctx w" "accepted_tokens (trace w') = accepted_tokens (trace w)"
    by blast
  from assms have "accounted E w'"
    by (rule accounted_frame) (simp_all add: w'(2-4))
  with w' show ?thesis by (auto simp: stays_accounted_def)
qed

lemma chatbot_turn_kept:
  assumes "decode_contract E" and "window_fixed E" and "2 * llama_n_ctx E (g_ctx w) \<le> INT_MAX"
    and "0 < n_batch params" and "n_batch params \<le> INT_MAX"
    and "accounted E w" and "chatbot_turn E params line sigs w = Some y"
  shows "stays_accounted E w y"
proof (cases "is_empty line")
  case True
  with assms(6,7) show ?thesis by (auto simp: chatbot_turn_def intro: kept_Return)
next
  case False
  from handle_command_kept [OF assms(6), of line] obtain b w' where
    h: "handle_command E line w = Return b w'" and a': "accounted E w'"
    "llama_n_ctx E (g_ctx w') = llama_n_ctx E (g_ctx w)"
    by (auto simp: stays_accounted_def handle_command_no_exit)
  show ?thesis
  proof (cases b)
    case True
    with False h assms(7) have "y = Return () w'" by (simp add: chatbot_turn_def)
    with a' show ?thesis by (simp add: stays_accounted_def)
  next
    case nb: False
    with False h assms(7) have "chat_reply E params line sigs w' = Some y"
      by (simp add: chatbot_turn_def)
    moreover from assms(3) a'(2) have "2 * llama_n_ctx E (g_ctx w') \<le> INT_MAX" by simp
    ultimately have "stays_accounted E w' y"
      using assms(1,2,4,5) a'(1) by (intro chat_reply_kept)
    with a'(2) show ?thesis
      by (auto simp: stays_accounted_def)
  qed
qed

lemma chatbot_repl_kept:
  assumes "decode_contract E" and "window_fixed E"
    and "0 < n_batch params" and "n_batch params \<le> INT_MAX"
  shows "2 * llama_n_ctx E (g_ctx w) \<le> INT_MAX \<Longrightarrow> accounted E w \<Longrightarrow>
         chatbot_repl E params input w = Some y \<Longrightarrow> stays_accounted E w y"
proof (induction input arbitrary: w y)
  case Nil
  have "accounted E (read_line w)"
    using Nil(2) by (rule accounted_frame) (simp_all add: read_line_def emit_def accepted_tokens_append)
  with Nil(3) show ?case by (auto simp: stays_accounted_def read_line_def emit_def)
next
  case (Cons a input)
  obtain line sigs where a: "a = (line, sigs)" by (cases a)
  have ar: "accounted E (read_line w)"
    using Cons.prems(2) by (rule accounted_frame)
      (simp_all add: read_line_def emit_def accepted_tokens_append)
  have sr: "2 * llama_n_ctx E (g_ctx (read_line w)) \<le> INT_MAX"
    using Cons.prems(1) by (simp add: read_line_def emit_def)
  from Cons.prems(3) have "stays_accounted E (read_line w) y"
    unfolding a chatbot_repl.simps
  proof (rule and_then_kept, goal_cases)
    case (1 x)
    from chatbot_turn_kept [OF assms(1,2) sr assms(3,4) ar this] show ?case .
  next
    case (2 u v x)
    from sr 2(3) have "2 * llama_n_ctx E (g_ctx v) \<le> INT_MAX" by simp
    from Cons.IH [OF this 2(2,4)] show ?case .
  qed
  then show ?case by (simp add: stays_accounted_def read_line_def emit_def)
qed

lemma load_prompt_kept:
  assumes "decode_contract E" and "2 * llama_n_ctx E (g_ctx w) \<le> INT_MAX"
    and "0 < n_batch params" and "n_batch params \<le> INT_MAX"
    and "accounted E w" and "load_prompt E params w = Some y"
  shows "stays_accounted E w y"
proof -
  let ?w2 = "emit [Apply_template (chat_template params) [(''system'', prompt params)] False]
               (print_ephemeral ''loading prompt...'' w)"
  have a2: "accounted E ?w2"
    using assms(5) by (rule accounted_frame)
      (simp_all add: emit_def print_ephemeral_def accepted_tokens_append)
  have s2: "2 * llama_n_ctx E (g_ctx ?w2) \<le> INT_MAX"
    using assms(2) by (simp add: emit_def print_ephemeral_def)
  from assms(6) have "stays_accounted E ?w2 y"
    unfolding load_prompt_def Let_def
  proof (rule and_then_kept, goal_cases)
    case (1 x)
    from eval_string_kept [OF assms(1) s2 assms(3,4) a2 this] show ?case .
  next
    case (2 a v x)
    let ?v = "emit [Stdout ((if special params
                 then c_str (llama_chat_apply_template E (g_ctx (print_ephemeral ''loading prompt...'' w))
                        (chat_template params) [(''system'', prompt params)] False)
                 else c_str (prompt params)) @ [NL])] (clear_ephemeral v)"
    have "accounted E ?v"
      using 2(2) by (rule accounted_frame)
        (simp_all add: emit_def clear_ephemeral_def accepted_tokens_append)
    with 2(4) show ?case by (auto simp: stays_accounted_def emit_def clear_ephemeral_def)
  qed
  then show ?thesis by (simp add: stays_accounted_def emit_def print_ephemeral_def)
qed

lemma chatbot_main_kept:
  assumes "decode_contract E" and "window_fixed E" and "2 * llama_n_ctx E (g_ctx w) \<le> INT_MAX"
    and "0 < n_batch params" and "n_batch params \<le> INT_MAX" and "accounted E w"
    and "chatbot_main E (Some params) True True input w = Some y"
  shows "stays_accounted E w y"
proof -
  let ?p = "if prompt params = [] then params\<lparr>prompt := default_prompt\<rparr> else params"
  have nb: "0 < n_batch ?p" "n_batch ?p \<le> INT_MAX" using assms(4,5) by simp_all
  from assms(7) have
    "and_then (load_prompt E ?p w)
       (\<lambda>_ w1. and_then (chatbot_repl E ?p input w1) (\<lambda>_ w2. Some (Return 0 w2))) = Some y"
    by (simp add: chatbot_main_def Let_def)
  then show ?thesis
  proof (rule and_then_kept, goal_cases)
    case (1 x)
    from load_prompt_kept [OF assms(1,3) nb assms(6) this] show ?case .
  next
    case (2 a v x)
    from assms(3) 2(3) have sv: "2 * llama_n_ctx E (g_ctx v) \<le> INT_MAX" by simp
    from 2(4) show ?case
    proof (rule and_then_kept, goal_cases)
      case (1 x)
      from chatbot_repl_kept [OF assms(1,2) nb sv 2(2) this] show ?case .
    next
      case (2 a v x)
      then show ?case by (auto simp: stays_accounted_def)
    qed
  qed
qed

subsection \<open>The calls return\<close>

text \<open>
  Under the engine's contract every evaluation ends: each accepted batch moves \<open>n_past\<close>
  towards the window's end, so the loops of \<open>eval_tokens\<close> and of the generation return
  or die out of context.
\<close>

lemma eval_tokens_loop_returns:
  assumes con: "decode_contract E" and nb: "0 < nb" "nb \<le> INT_MAX"
    and N: "N = cint (int (length tokens))"
  shows "llama_n_ctx E (g_ctx w) < 1073741824 \<Longrightarrow> accounted E w \<Longrightarrow>
         (i < N \<longrightarrow> 0 \<le> i \<and> i \<le> n_past w \<and> (i = 0 \<or> nb \<le> i)) \<Longrightarrow>
         \<exists>y. eval_tokens_loop E tokens nb N i w = Some y"
proof (induction "nat (llama_n_ctx E (g_ctx w) - n_past w)" arbitrary: i w rule: less_induct)
  case less
  note small = less.prems(1) and acc = less.prems(2) and inv = less.prems(3)
  show ?case
  proof (cases "i < N")
    case False
    then show ?thesis by (subst eval_tokens_loop.simps) simp
  next
    case True
    with inv have i: "0 \<le> i" "i \<le> n_past w" "i = 0 \<or> nb \<le> i" by simp_all
    from acc have np: "0 \<le> n_past w" "n_past w \<le> llama_n_ctx E (g_ctx w)"
      by (simp_all add: accounted_def)
    from i np small have i30: "i < 1073741824" by simp
    from cint_range [of "int (length tokens)"] N have Nr: "N < 2147483648" by simp
    have c1: "cint (cint (int (length tokens)) - i) = N - i"
      using True i Nr N by (intro cint_id [THEN trans]) auto
    let ?n_eval = "if nb < N - i then nb else N - i"
    have ne: "0 < ?n_eval" "?n_eval \<le> nb" "?n_eval \<le> N - i"
      using True nb by auto
    have inb: "0 \<le> i \<and> i < int (length tokens)"
      using i True N i30 below_cint_length [of i tokens] by simp
    let ?b = "llama_batch_get_one (drop (nat i) tokens) ?n_eval (n_past w) 0"
    have bt: "n_tokens ?b = ?n_eval" "all_pos_0 ?b = n_past w"
      by (simp_all add: llama_batch_get_one_def)
    obtain rc e where d: "llama_decode E (g_ctx w) ?b = (rc, e)"
      by (cases "llama_decode E (g_ctx w) ?b")
    from decode_contractD(1) [OF con d] have keep: "llama_n_ctx E e = llama_n_ctx E (g_ctx w)" .
    let ?w1 = "emit [Decode ?b rc] (w\<lparr>g_ctx := e\<rparr>)"
    have body: "eval_tokens_loop E tokens nb N i w =
        (if rc \<noteq> 0 then Some (die_out_of_context E ?w1)
         else eval_tokens_loop E tokens nb N (cint (i + nb))
                (?w1\<lparr>n_past := cint (n_past ?w1 + ?n_eval)\<rparr>))"
      using True inb d by (subst eval_tokens_loop.simps) (simp add: Let_def c1)
    show ?thesis
    proof (cases "rc = 0")
      case False
      with body show ?thesis by simp
    next
      case rc0: True
      from decode_contractD(2) [OF con d rc0]
      have "all_pos_0 ?b + n_tokens ?b \<le> llama_n_ctx E (g_ctx w)" .
      then have room: "n_past w + ?n_eval \<le> llama_n_ctx E (g_ctx w)"
        unfolding bt .
      have c3: "cint (n_past w + ?n_eval) = n_past w + ?n_eval"
        using room small np ne by (intro cint_id) auto
      have c2: "cint (i + nb) = i + nb"
        using i i30 nb by (intro cint_id) (auto simp: INT_MAX_def)
      let ?w' = "?w1\<lparr>n_past := n_past w + ?n_eval\<rparr>"
      from body rc0 have next_call:
        "eval_tokens_loop E tokens nb N i w = eval_tokens_loop E tokens nb N (i + nb) ?w'"
        by (simp add: c2 c3 emit_def)
      have acc': "accounted E ?w'"
        using acc np room ne rc0
        by (simp add: accounted_def emit_def accepted_tokens_append keep llama_batch_get_one_def)
      have inv': "i + nb < N \<longrightarrow> 0 \<le> i + nb \<and> i + nb \<le> n_past ?w' \<and> (i + nb = 0 \<or> nb \<le> i + nb)"
      proof
        assume "i + nb < N"
        then have "?n_eval = nb" by simp
        with i nb show "0 \<le> i + nb \<and> i + nb \<le> n_past ?w' \<and> (i + nb = 0 \<or> nb \<le> i + nb)"
          by (simp add: emit_def)
      qed
      have less': "nat (llama_n_ctx E (g_ctx ?w') - n_past ?w') < nat (llama_n_ctx E (g_ctx w) - n_past w)"
        using room ne np by (simp add: emit_def keep)
      have small': "llama_n_ctx E (g_ctx ?w') < 1073741824"
        using small by (simp add: emit_def keep)
      from less.hyps [OF less' small' acc' inv'] next_call show ?thesis by simp
    qed
  qed
qed

lemma eval_tokens_returns:
  assumes "decode_contract E" and "llama_n_ctx E (g_ctx w) < 1073741824"
    and "0 < nb" and "nb \<le> INT_MAX" and "accounted E w"
  shows "\<exists>y. eval_tokens E tokens nb w = Some y"
  unfolding eval_tokens_def
  using assms(2,5) by (intro eval_tokens_loop_returns [OF assms(1,3,4) refl]) (simp_all add: accounted_def)


lemma eval_string_returns:
  assumes "decode_contract E" and "2 * llama_n_ctx E (g_ctx w) \<le> INT_MAX"
    and "0 < nb" and "nb \<le> INT_MAX" and "accounted E w"
  shows "\<exists>y. eval_string E str nb a p w = Some y"
proof -
  let ?w = "emit [Tokenize (c_str str) a p] w"
  have acc: "accounted E ?w"
    using assms(5) by (rule accounted_frame) (simp_all add: emit_def accepted_tokens_append)
  have small: "llama_n_ctx E (g_ctx ?w) < 1073741824"
    using assms(2) by (simp add: emit_def INT_MAX_def)
  from eval_tokens_returns [OF assms(1) small assms(3,4) acc] show ?thesis
    by (simp add: eval_string_unfold)
qed

lemma generation_loop_returns:
  assumes con: "decode_contract E" and wfix: "window_fixed E"
  shows "2 * llama_n_ctx E (g_ctx w) \<le> INT_MAX \<Longrightarrow> accounted E w \<Longrightarrow>
         \<exists>y. generation_loop E params sigs w = Some y"
proof (induction "nat (llama_n_ctx E (g_ctx w) - n_past w)" arbitrary: sigs w rule: less_induct)
  case less
  note small = less.prems(1) and acc = less.prems(2)
  let ?w = "deliver sigs w"
  have accd: "accounted E ?w"
    using acc by (rule accounted_frame)
      (auto simp: deliver_def on_sigint_def split: list.splits bool.splits)
  have ctxd: "g_ctx ?w = g_ctx w" and npd: "n_past ?w = n_past w"
    by (auto simp: deliver_def on_sigint_def split: list.splits bool.splits)
  show ?case
  proof (cases "g_got_sigint ?w \<noteq> 0")
    case True
    then show ?thesis by (subst generation_loop.simps) (simp add: Let_def)
  next
    case False
    obtain tok e1 where s: "llama_sampling_sample E (g_ctx ?w) = (tok, e1)"
      by (cases "llama_sampling_sample E (g_ctx ?w)")
    let ?w1 = "emit [Sample tok] (?w\<lparr>g_ctx := e1\<rparr>)"
    let ?w2 = "emit [Accept tok] (?w1\<lparr>g_ctx := llama_sampling_accept E (g_ctx ?w1) tok True\<rparr>)"
    let ?w3 = "emit [Stdout (c_str (llama_token_to_piece E (g_ctx ?w2) tok (special params))),
                     Fflush_stdout] ?w2"
    from wfix have "llama_n_ctx E (snd (llama_sampling_sample E (g_ctx ?w))) =
                    llama_n_ctx E (g_ctx ?w)"
      unfolding window_fixed_def by blast
    with s have n1: "llama_n_ctx E e1 = llama_n_ctx E (g_ctx ?w)" by simp
    from wfix have n2: "llama_n_ctx E (llama_sampling_accept E e1 tok True) = llama_n_ctx E e1"
      unfolding window_fixed_def by blast
    have acc2: "accounted E ?w2"
      using accd by (rule accounted_frame)
        (simp_all add: emit_def accepted_tokens_append n1 n2)
    have acc3: "accounted E ?w3"
      using acc2 by (rule accounted_frame) (simp_all add: emit_def accepted_tokens_append)
    have ctx3: "llama_n_ctx E (g_ctx ?w3) = llama_n_ctx E (g_ctx w)"
      by (simp add: emit_def n1 n2 ctxd)
    have np3: "n_past ?w3 = n_past w"
      by (simp add: emit_def npd)
    have body: "generation_loop E params sigs w =
        (if llama_token_is_eog E (g_ctx ?w2) tok then Some (Return () ?w2)
         else case eval_id E tok ?w3 of
                None \<Rightarrow> None
              | Some (Return u w4) \<Rightarrow> generation_loop E params (tl sigs) w4
              | Some (Exit c w4) \<Rightarrow> Some (Exit c w4)
              | Some Undefined_behaviour \<Rightarrow> Some Undefined_behaviour)"
      using False s by (subst generation_loop.simps) (simp add: Let_def)
    show ?thesis
    proof (cases "llama_token_is_eog E (g_ctx ?w2) tok")
      case True
      with body show ?thesis by simp
    next
      case neog: False
      from small ctx3 have small3: "2 * llama_n_ctx E (g_ctx ?w3) \<le> INT_MAX" by simp
      from acc3 small3 have r3: "- 2147483648 \<le> n_past ?w3" "n_past ?w3 < INT_MAX"
        unfolding accounted_def by (simp_all add: INT_MAX_def)
      from eval_id_evaluate [OF r3]
      have x: "eval_id E tok ?w3 = Some (spec_evaluate E [[tok]] ?w3)" .
      from eval_id_kept [OF con small3 acc3 x]
      have kx: "stays_accounted E ?w3 (spec_evaluate E [[tok]] ?w3)" .
      show ?thesis
      proof (cases "spec_evaluate E [[tok]] ?w3")
        case (Return u w4)
        from evaluate_Return [OF Return] have "n_past w4 = n_past ?w3 + 1" by simp
        moreover from kx Return have a4: "accounted E w4"
          "llama_n_ctx E (g_ctx w4) = llama_n_ctx E (g_ctx ?w3)"
          by (auto simp: stays_accounted_def)
        ultimately have less': "nat (llama_n_ctx E (g_ctx w4) - n_past w4) <
                                nat (llama_n_ctx E (g_ctx w) - n_past w)"
          unfolding accounted_def ctx3 np3 by simp
        from small ctx3 a4 have small4: "2 * llama_n_ctx E (g_ctx w4) \<le> INT_MAX" by simp
        from less.hyps [OF less' small4 a4(1)]
        obtain y where "generation_loop E params (tl sigs) w4 = Some y" by blast
        with body neog x Return show ?thesis by simp
      next
        case (Exit c w4)
        with body neog x show ?thesis by simp
      next
        case Undefined_behaviour
        with body neog x show ?thesis by simp
      qed
    qed
  qed
qed

lemma generate_returns:
  assumes "decode_contract E" and "window_fixed E" and "2 * llama_n_ctx E (g_ctx w) \<le> INT_MAX"
    and "accounted E w"
  shows "\<exists>y. generate E params sigs w = Some y"
proof -
  from generation_loop_returns [OF assms] obtain x where
    "generation_loop E params sigs w = Some x" by blast
  then show ?thesis
    by (cases x) (simp_all add: generate_def and_then_def)
qed


lemma chat_reply_returns:
  assumes "decode_contract E" and "window_fixed E" and "2 * llama_n_ctx E (g_ctx w) \<le> INT_MAX"
    and "0 < n_batch params" and "n_batch params \<le> INT_MAX" and "accounted E w"
  shows "\<exists>y. chat_reply E params line sigs w = Some y"
proof -
  let ?chat = "[(''user'', line)]"
  let ?msg = "llama_chat_apply_template E (g_ctx w) (chat_template params) ?chat True"
  let ?w1 = "emit [Apply_template (chat_template params) ?chat True] w"
  have a1: "accounted E ?w1"
    using assms(6) by (rule accounted_frame) (simp_all add: emit_def accepted_tokens_append)
  have s1: "2 * llama_n_ctx E (g_ctx ?w1) \<le> INT_MAX"
    using assms(3) by (simp add: emit_def)
  from eval_string_returns [OF assms(1) s1 assms(4,5) a1]
  obtain x where x: "eval_string E (c_str ?msg) (n_batch params) False True ?w1 = Some x"
    by blast
  from eval_string_kept [OF assms(1) s1 assms(4,5) a1 x] have kx: "stays_accounted E ?w1 x" .
  have unfold: "chat_reply E params line sigs w =
      and_then (Some x) (\<lambda>_ w2. generate E params sigs w2)"
    by (simp add: chat_reply_def Let_def x)
  show ?thesis
  proof (cases x)
    case (Return u v)
    with kx have "accounted E v" "llama_n_ctx E (g_ctx v) = llama_n_ctx E (g_ctx ?w1)"
      by (auto simp: stays_accounted_def)
    with s1 have "accounted E v" "2 * llama_n_ctx E (g_ctx v) \<le> INT_MAX" by simp_all
    from generate_returns [OF assms(1,2) this(2,1)]
    obtain y where "generate E params sigs v = Some y" by blast
    with unfold Return show ?thesis by (simp add: and_then_def)
  next
    case (Exit c v)
    with unfold show ?thesis by (simp add: and_then_def)
  next
    case Undefined_behaviour
    with unfold show ?thesis by (simp add: and_then_def)
  qed
qed

lemma chat_reply_renders:
  assumes "decode_contract E" and "window_fixed E" and "2 * llama_n_ctx E (g_ctx w) \<le> INT_MAX"
    and "0 < n_batch params" and "n_batch params \<le> INT_MAX" and "accounted E w"
  shows "\<exists>w'. (chat_reply E params line sigs w = Some (Return () w') \<or>
               chat_reply E params line sigs w = Some (Exit 1 w')) \<and>
              turn_events (trace w') =
                turn_events (trace w) @ user_turn E (chat_template params) (line, g_ctx w) \<and>
              accounted E w' \<and> llama_n_ctx E (g_ctx w') = llama_n_ctx E (g_ctx w)"
proof -
  from chat_reply_returns [OF assms] obtain y where
    y: "chat_reply E params line sigs w = Some y" by blast
  from chat_reply_kept [OF assms y] obtain w' where
    w': "(\<exists>a. y = Return a w') \<or> y = Exit 1 w'" "accounted E w'"
        "llama_n_ctx E (g_ctx w') = llama_n_ctx E (g_ctx w)"
    unfolding stays_accounted_def by blast
  from chat_reply_turn_events [OF y] w'(1)
  have "turn_events (trace w') =
          turn_events (trace w) @ user_turn E (chat_template params) (line, g_ctx w)"
    by (auto simp: user_turn_def)
  with y w' show ?thesis by auto
qed

lemma load_prompt_renders:
  assumes "decode_contract E" and "2 * llama_n_ctx E (g_ctx w) \<le> INT_MAX"
    and "0 < n_batch params" and "n_batch params \<le> INT_MAX" and "accounted E w"
  shows "\<exists>w'. (load_prompt E params w = Some (Return () w') \<or>
               load_prompt E params w = Some (Exit 1 w')) \<and>
              turn_events (trace w') =
                turn_events (trace w) @
                system_turn E (chat_template params) (prompt params) (g_ctx w) \<and>
              accounted E w' \<and> llama_n_ctx E (g_ctx w') = llama_n_ctx E (g_ctx w)"
proof -
  let ?chat = "[(''system'', prompt params)]"
  let ?w1 = "print_ephemeral ''loading prompt...'' w"
  let ?msg = "llama_chat_apply_template E (g_ctx ?w1) (chat_template params) ?chat False"
  let ?w2 = "emit [Apply_template (chat_template params) ?chat False] ?w1"
  have a2: "accounted E ?w2"
    using assms(5) by (rule accounted_frame)
      (simp_all add: emit_def print_ephemeral_def accepted_tokens_append)
  have s2: "2 * llama_n_ctx E (g_ctx ?w2) \<le> INT_MAX"
    using assms(2) by (simp add: emit_def print_ephemeral_def)
  from eval_string_returns [OF assms(1) s2 assms(3,4) a2]
  obtain x where
    x: "eval_string E (c_str ?msg) (n_batch params) (llama_should_add_bos_token E (g_ctx ?w1))
          True ?w2 = Some x"
    by blast
  have "\<exists>y. load_prompt E params w = Some y"
    by (cases x) (simp_all add: load_prompt_def Let_def x and_then_def)
  then obtain y where y: "load_prompt E params w = Some y" by blast
  from load_prompt_kept [OF assms y] obtain w' where
    w': "(\<exists>a. y = Return a w') \<or> y = Exit 1 w'" "accounted E w'"
        "llama_n_ctx E (g_ctx w') = llama_n_ctx E (g_ctx w)"
    unfolding stays_accounted_def by blast
  from load_prompt_turn_events [OF y] w'(1)
  have "turn_events (trace w') =
          turn_events (trace w) @ system_turn E (chat_template params) (prompt params) (g_ctx w)"
    by (auto simp: system_turn_def)
  with y w' show ?thesis by auto
qed


lemma chat_lines_simps:
  "chat_lines [] = []"
  "is_empty line \<Longrightarrow> chat_lines ((line, sigs) # input) = chat_lines input"
  "slash_alpha line \<Longrightarrow> chat_lines ((line, sigs) # input) = chat_lines input"
  "\<not> is_empty line \<Longrightarrow> \<not> slash_alpha line \<Longrightarrow>
   chat_lines ((line, sigs) # input) = line # chat_lines input"
  by (simp_all add: chat_lines_def)

lemma chatbot_repl_renders:
  assumes con: "decode_contract E" and wfix: "window_fixed E"
    and nb: "0 < n_batch params" "n_batch params \<le> INT_MAX"
  shows "2 * llama_n_ctx E (g_ctx w) \<le> INT_MAX \<Longrightarrow> accounted E w \<Longrightarrow>
         \<exists>w' turns.
           (chatbot_repl E params input w = Some (Return () w') \<and>
              map fst turns = chat_lines input \<or>
            chatbot_repl E params input w = Some (Exit 1 w') \<and>
              (\<exists>k. map fst turns = take k (chat_lines input))) \<and>
           turn_events (trace w') =
             turn_events (trace w) @ concat (map (user_turn E (chat_template params)) turns)"
proof (induction input arbitrary: w)
  case Nil
  have "chatbot_repl E params [] w = Some (Return () (read_line w))" by simp
  moreover have "turn_events (trace (read_line w)) = turn_events (trace w)"
    by (simp add: read_line_def emit_def)
  ultimately show ?case
    by (intro exI [of _ "read_line w"] exI [of _ "[]"]) (simp add: chat_lines_simps)
next
  case (Cons a input)
  obtain line sigs where a: "a = (line, sigs)" by (cases a)
  let ?w1 = "read_line w"
  let ?tmpl = "chat_template params"
  have a1: "accounted E ?w1"
    using Cons.prems(2) by (rule accounted_frame)
      (simp_all add: read_line_def emit_def accepted_tokens_append)
  have s1: "2 * llama_n_ctx E (g_ctx ?w1) \<le> INT_MAX"
    using Cons.prems(1) by (simp add: read_line_def emit_def)
  have t1: "turn_events (trace ?w1) = turn_events (trace w)"
    by (simp add: read_line_def emit_def)
  have unfold: "chatbot_repl E params (a # input) w =
      and_then (chatbot_turn E params line sigs ?w1) (\<lambda>_ w'. chatbot_repl E params input w')"
    by (simp add: a)
  have skip: "\<exists>w' turns.
           (chatbot_repl E params (a # input) w = Some (Return () w') \<and>
              map fst turns = chat_lines (a # input) \<or>
            chatbot_repl E params (a # input) w = Some (Exit 1 w') \<and>
              (\<exists>k. map fst turns = take k (chat_lines (a # input)))) \<and>
           turn_events (trace w') =
             turn_events (trace w) @ concat (map (user_turn E ?tmpl) turns)"
    if turn: "chatbot_turn E params line sigs ?w1 = Some (Return () v)"
      and same: "chat_lines (a # input) = chat_lines input"
      and tv: "turn_events (trace v) = turn_events (trace w)"
      and av: "accounted E v" and sv: "2 * llama_n_ctx E (g_ctx v) \<le> INT_MAX" for v
  proof -
    from Cons.IH [OF sv av] obtain w' turns where
      "(chatbot_repl E params input v = Some (Return () w') \<and>
          map fst turns = chat_lines input \<or>
        chatbot_repl E params input v = Some (Exit 1 w') \<and>
          (\<exists>k. map fst turns = take k (chat_lines input)))"
      "turn_events (trace w') =
         turn_events (trace v) @ concat (map (user_turn E ?tmpl) turns)"
      by blast
    moreover have "chatbot_repl E params (a # input) w = chatbot_repl E params input v"
      using unfold turn by (simp add: and_then_def)
    ultimately show ?thesis
      unfolding same tv by metis
  qed
  show ?case
  proof (cases "is_empty line")
    case True
    then have "chatbot_turn E params line sigs ?w1 = Some (Return () ?w1)"
      by (simp add: chatbot_turn_def)
    moreover have "chat_lines (a # input) = chat_lines input"
      using True by (simp add: a chat_lines_simps)
    ultimately show ?thesis using t1 a1 s1 by (rule skip)
  next
    case ne: False
    show ?thesis
    proof (cases "slash_alpha line")
      case True
      from handle_command_True [OF True, of E ?w1] obtain v where
        v: "handle_command E line ?w1 = Return True v"
           "turn_events (trace v) = turn_events (trace ?w1)" "g_ctx v = g_ctx ?w1"
        by blast
      from handle_command_kept [OF a1, of line] v(1) have av: "accounted E v"
        by (simp add: stays_accounted_def)
      from v(1) ne have "chatbot_turn E params line sigs ?w1 = Some (Return () v)"
        by (simp add: chatbot_turn_def)
      moreover have "chat_lines (a # input) = chat_lines input"
        using True by (simp add: a chat_lines_simps)
      moreover from v(2) t1 have "turn_events (trace v) = turn_events (trace w)" by simp
      moreover from s1 v(3) have "2 * llama_n_ctx E (g_ctx v) \<le> INT_MAX" by simp
      ultimately show ?thesis using av by (intro skip)
    next
      case False
      have lines: "chat_lines (a # input) = line # chat_lines input"
        using ne False by (simp add: a chat_lines_simps)
      have turn: "chatbot_turn E params line sigs ?w1 = chat_reply E params line sigs ?w1"
        using ne False by (simp add: chatbot_turn_def handle_command_def)
      from chat_reply_renders [OF con wfix s1 nb a1, of line sigs] obtain v where
        v: "chat_reply E params line sigs ?w1 = Some (Return () v) \<or>
            chat_reply E params line sigs ?w1 = Some (Exit 1 v)"
           "turn_events (trace v) =
              turn_events (trace ?w1) @ user_turn E ?tmpl (line, g_ctx ?w1)"
           "accounted E v" "llama_n_ctx E (g_ctx v) = llama_n_ctx E (g_ctx ?w1)"
        by blast
      from v(1) show ?thesis
      proof
        assume ex: "chat_reply E params line sigs ?w1 = Some (Exit 1 v)"
        with unfold turn have "chatbot_repl E params (a # input) w = Some (Exit 1 v)"
          by (simp add: and_then_def)
        moreover have "map fst [(line, g_ctx ?w1)] = take 1 (chat_lines (a # input))"
          by (simp add: lines)
        moreover have "turn_events (trace v) =
            turn_events (trace w) @ concat (map (user_turn E ?tmpl) [(line, g_ctx ?w1)])"
          using v(2) t1 by simp
        ultimately show ?thesis by blast
      next
        assume ret: "chat_reply E params line sigs ?w1 = Some (Return () v)"
        with unfold turn have step:
          "chatbot_repl E params (a # input) w = chatbot_repl E params input v"
          by (simp add: and_then_def)
        from s1 v(4) have sv: "2 * llama_n_ctx E (g_ctx v) \<le> INT_MAX" by simp
        from Cons.IH [OF sv v(3)] obtain w' turns where
          r: "(chatbot_repl E params input v = Some (Return () w') \<and>
                 map fst turns = chat_lines input \<or>
               chatbot_repl E params input v = Some (Exit 1 w') \<and>
                 (\<exists>k. map fst turns = take k (chat_lines input)))"
          and tw: "turn_events (trace w') =
             turn_events (trace v) @ concat (map (user_turn E ?tmpl) turns)"
          by blast
        let ?turns = "(line, g_ctx ?w1) # turns"
        have ev: "turn_events (trace w') =
            turn_events (trace w) @ concat (map (user_turn E ?tmpl) ?turns)"
          using tw v(2) t1 by simp
        from r have "chatbot_repl E params (a # input) w = Some (Return () w') \<and>
                 map fst ?turns = chat_lines (a # input) \<or>
               chatbot_repl E params (a # input) w = Some (Exit 1 w') \<and>
                 (\<exists>k. map fst ?turns = take k (chat_lines (a # input)))"
        proof
          assume "chatbot_repl E params input v = Some (Return () w') \<and>
                 map fst turns = chat_lines input"
          then show ?thesis by (simp add: step lines)
        next
          assume "chatbot_repl E params input v = Some (Exit 1 w') \<and>
                 (\<exists>k. map fst turns = take k (chat_lines input))"
          then obtain k where "chatbot_repl E params input v = Some (Exit 1 w')"
            "map fst turns = take k (chat_lines input)" by blast
          then have "chatbot_repl E params (a # input) w = Some (Exit 1 w')"
            "map fst ?turns = take (Suc k) (chat_lines (a # input))"
            by (simp_all add: step lines)
          then show ?thesis by blast
        qed
        with ev show ?thesis by blast
      qed
    qed
  qed
qed


lemma chatbot_main_renders:
  assumes con: "decode_contract E" and wfix: "window_fixed E"
    and small: "2 * llama_n_ctx E (g_ctx w) \<le> INT_MAX"
    and nb: "0 < n_batch params" "n_batch params \<le> INT_MAX" and acc: "accounted E w"
  shows "\<exists>w' turns.
           (chatbot_main E (Some params) True True input w = Some (Return 0 w') \<and>
              map fst turns = chat_lines input \<or>
            chatbot_main E (Some params) True True input w = Some (Exit 1 w') \<and>
              (\<exists>k. map fst turns = take k (chat_lines input))) \<and>
           turn_events (trace w') =
             turn_events (trace w) @
             system_turn E (chat_template params)
               (if prompt params = [] then default_prompt else prompt params) (g_ctx w) @
             concat (map (user_turn E (chat_template params)) turns)"
proof -
  let ?p = "if prompt params = [] then params\<lparr>prompt := default_prompt\<rparr> else params"
  let ?sys = "system_turn E (chat_template params)
               (if prompt params = [] then default_prompt else prompt params) (g_ctx w)"
  have p: "0 < n_batch ?p" "n_batch ?p \<le> INT_MAX" "chat_template ?p = chat_template params"
    "prompt ?p = (if prompt params = [] then default_prompt else prompt params)"
    using nb by simp_all
  have unfold: "chatbot_main E (Some params) True True input w =
      and_then (load_prompt E ?p w)
        (\<lambda>_ w1. and_then (chatbot_repl E ?p input w1) (\<lambda>_ w2. Some (Return 0 w2)))"
    by (simp add: chatbot_main_def Let_def)
  from load_prompt_renders [OF con small p(1,2) acc] obtain v where
    v: "load_prompt E ?p w = Some (Return () v) \<or> load_prompt E ?p w = Some (Exit 1 v)"
       "turn_events (trace v) = turn_events (trace w) @ ?sys"
       "accounted E v" "llama_n_ctx E (g_ctx v) = llama_n_ctx E (g_ctx w)"
    unfolding p(3,4) by blast
  from v(1) show ?thesis
  proof
    assume "load_prompt E ?p w = Some (Exit 1 v)"
    with unfold have "chatbot_main E (Some params) True True input w = Some (Exit 1 v)"
      by (simp add: and_then_def)
    moreover have "map fst [] = take 0 (chat_lines input)" by simp
    moreover have "turn_events (trace v) =
        turn_events (trace w) @ ?sys @ concat (map (user_turn E (chat_template params)) [])"
      using v(2) by simp
    ultimately show ?thesis by blast
  next
    assume "load_prompt E ?p w = Some (Return () v)"
    with unfold have step: "chatbot_main E (Some params) True True input w =
        and_then (chatbot_repl E ?p input v) (\<lambda>_ w2. Some (Return 0 w2))"
      by (simp add: and_then_def)
    from small v(4) have sv: "2 * llama_n_ctx E (g_ctx v) \<le> INT_MAX" by simp
    from chatbot_repl_renders [OF con wfix p(1,2) sv v(3), of input] obtain w' turns where
      r: "chatbot_repl E ?p input v = Some (Return () w') \<and> map fst turns = chat_lines input \<or>
          chatbot_repl E ?p input v = Some (Exit 1 w') \<and>
            (\<exists>k. map fst turns = take k (chat_lines input))"
      and tw: "turn_events (trace w') =
          turn_events (trace v) @ concat (map (user_turn E (chat_template params)) turns)"
      unfolding p(3) by blast
    have ev: "turn_events (trace w') =
        turn_events (trace w) @ ?sys @ concat (map (user_turn E (chat_template params)) turns)"
      using tw v(2) by simp
    from r have "chatbot_main E (Some params) True True input w = Some (Return 0 w') \<and>
              map fst turns = chat_lines input \<or>
            chatbot_main E (Some params) True True input w = Some (Exit 1 w') \<and>
              (\<exists>k. map fst turns = take k (chat_lines input))"
      by (auto simp: step and_then_def)
    with ev show ?thesis by blast
  qed
qed

section \<open>The properties\<close>

subsection \<open>The batched evaluator\<close>

text \<open>
  C1. Under the engine's contract (a decode that would reach beyond the configured
  window fails), starting in an accounted state: every sequence of calls of \<open>eval_tokens\<close>
  with positive batch sizes (and sizes that fit a C \<open>int\<close>) ends, by the return of the
  last call or by the overflow exit of one of them, in an accounted state, where
  \<open>n_past\<close> is at most \<open>llama_n_ctx\<close> and equals the number of tokens of all the chunks the
  engine has accepted; the window does not change. The state in which the program
  starts is accounted. And every run of \<open>chatbot_main\<close> that ends, whatever the user
  enters and whenever the signals arrive, ends in an accounted state, provided that
  sampling leaves the window as it is and that twice the window fits a C \<open>int\<close>.
\<close>

theorem eval_tokens_accounted:
  assumes "decode_contract E" and "accounted E w"
  shows "((\<forall>(tokens, nb) \<in> set calls.
             0 < nb \<and> int (length tokens) + nb \<le> INT_MAX \<and>
             llama_n_ctx E (g_ctx w) + int (length tokens) \<le> INT_MAX) \<longrightarrow>
          (\<exists>w'. (fold (\<lambda>(tokens, nb) r. and_then r (\<lambda>_ v. eval_tokens E tokens nb v)) calls
                    (Some (Return () w)) = Some (Return () w') \<or>
                 fold (\<lambda>(tokens, nb) r. and_then r (\<lambda>_ v. eval_tokens E tokens nb v)) calls
                    (Some (Return () w)) = Some (Exit 1 w')) \<and>
                accounted E w' \<and> llama_n_ctx E (g_ctx w') = llama_n_ctx E (g_ctx w))) \<and>
         (0 \<le> llama_n_ctx E e \<longrightarrow> accounted E (initial_world e log_disable)) \<and>
         (window_fixed E \<and> 2 * llama_n_ctx E (g_ctx w) \<le> INT_MAX \<and>
          0 < n_batch params \<and> n_batch params \<le> INT_MAX \<longrightarrow>
          (\<forall>r. chatbot_main E (Some params) True True input w = Some r \<longrightarrow>
             (\<exists>w'. (r = Return 0 w' \<or> r = Exit 1 w') \<and>
                   accounted E w' \<and> llama_n_ctx E (g_ctx w') = llama_n_ctx E (g_ctx w))))"
proof -
  let ?call = "\<lambda>(tokens, nb) r. and_then r (\<lambda>_ v. eval_tokens E tokens nb v)"
  have "\<exists>w'. (fold ?call calls r = Some (Return () w') \<or> fold ?call calls r = Some (Exit 1 w')) \<and>
              accounted E w' \<and> llama_n_ctx E (g_ctx w') = llama_n_ctx E (g_ctx w)"
    if "r = Some (Return () v) \<or> r = Some (Exit 1 v)" and "accounted E v"
      and "llama_n_ctx E (g_ctx v) = llama_n_ctx E (g_ctx w)"
      and "\<forall>(tokens, nb) \<in> set calls.
           0 < nb \<and> int (length tokens) + nb \<le> INT_MAX \<and>
           llama_n_ctx E (g_ctx w) + int (length tokens) \<le> INT_MAX"
    for r :: "(unit, 'a) outcome option" and v
    using that
  proof (induction calls arbitrary: r v)
    case Nil
    then show ?case by auto
  next
    case (Cons call calls)
    obtain tokens nb where call: "call = (tokens, nb)" by (cases call)
    from Cons.prems(4) call have fits: "0 < nb" "int (length tokens) + nb \<le> INT_MAX"
      "llama_n_ctx E (g_ctx w) + int (length tokens) \<le> INT_MAX"
      and rest: "\<forall>(tokens, nb) \<in> set calls.
           0 < nb \<and> int (length tokens) + nb \<le> INT_MAX \<and>
           llama_n_ctx E (g_ctx w) + int (length tokens) \<le> INT_MAX"
      by auto
    have "\<exists>v'. (?call call r = Some (Return () v') \<or> ?call call r = Some (Exit 1 v')) \<and>
               accounted E v' \<and> llama_n_ctx E (g_ctx v') = llama_n_ctx E (g_ctx w)"
    proof (cases "r = Some (Return () v)")
      case True
      from eval_tokens_accounted_step [OF assms(1) Cons.prems(2) fits(1,2)] fits(3) Cons.prems(3)
      obtain v' where "eval_tokens E tokens nb v = Some (Return () v') \<or>
               eval_tokens E tokens nb v = Some (Exit 1 v')" "accounted E v'"
        "llama_n_ctx E (g_ctx v') = llama_n_ctx E (g_ctx v)"
        by auto
      with True call Cons.prems(3) show ?thesis
        by (auto simp: and_then_def)
    next
      case False
      with Cons.prems(1) have "r = Some (Exit 1 v)" by simp
      with call Cons.prems(2,3) show ?thesis
        by (auto simp: and_then_def)
    qed
    then obtain v' where
      v': "?call call r = Some (Return () v') \<or> ?call call r = Some (Exit 1 v')"
      "accounted E v'" "llama_n_ctx E (g_ctx v') = llama_n_ctx E (g_ctx w)"
      by blast
    from Cons.IH [OF v' rest] show ?case by simp
  qed
  from this [of "Some (Return () w)" w] assms(2)
  have sequence: "(\<forall>(tokens, nb) \<in> set calls.
             0 < nb \<and> int (length tokens) + nb \<le> INT_MAX \<and>
             llama_n_ctx E (g_ctx w) + int (length tokens) \<le> INT_MAX) \<longrightarrow>
          (\<exists>w'. (fold ?call calls (Some (Return () w)) = Some (Return () w') \<or>
                 fold ?call calls (Some (Return () w)) = Some (Exit 1 w')) \<and>
                accounted E w' \<and> llama_n_ctx E (g_ctx w') = llama_n_ctx E (g_ctx w))"
    by simp
  have start: "0 \<le> llama_n_ctx E e \<longrightarrow> accounted E (initial_world e log_disable)"
    by (simp add: accounted_def initial_world_def)
  have session: "\<exists>w'. (r = Return 0 w' \<or> r = Exit 1 w') \<and>
                   accounted E w' \<and> llama_n_ctx E (g_ctx w') = llama_n_ctx E (g_ctx w)"
    if "window_fixed E" "2 * llama_n_ctx E (g_ctx w) \<le> INT_MAX"
      "0 < n_batch params" "n_batch params \<le> INT_MAX"
      "chatbot_main E (Some params) True True input w = Some r" for r
  proof -
    from chatbot_main_kept [OF assms(1) that(1-4) assms(2) that(5)] obtain w' where
      w': "(\<exists>a. r = Return a w') \<or> r = Exit 1 w'" "accounted E w'"
          "llama_n_ctx E (g_ctx w') = llama_n_ctx E (g_ctx w)"
      by (auto simp: stays_accounted_def)
    have "a = 0" if "r = Return a w'" for a
      using that \<open>chatbot_main E (Some params) True True input w = Some r\<close>
      by (auto simp: chatbot_main_def and_then_def Let_def split: option.splits outcome.splits)
    with w' show ?thesis by blast
  qed
  from sequence start session show ?thesis by blast
qed

theorem eval_tokens_accounted_witness:
  "fold (\<lambda>(tokens, nb) r. and_then r (\<lambda>_ v. eval_tokens (demo_engine False) tokens nb v))
     [([21, 22, 23], 2), ([24, 25], 1)] (Some (Return () (initial_world [] True))) =
     Some (Return ()
       \<lparr>n_past = 5, g_ctx = [], g_got_sigint = 0, FLAG_log_disable = True,
        trace = [Decode \<lparr>n_tokens = 2, token = [21, 22], all_pos_0 = 0, all_seq_id = 0\<rparr> 0,
                 Decode \<lparr>n_tokens = 1, token = [23], all_pos_0 = 2, all_seq_id = 0\<rparr> 0,
                 Decode \<lparr>n_tokens = 1, token = [24], all_pos_0 = 3, all_seq_id = 0\<rparr> 0,
                 Decode \<lparr>n_tokens = 1, token = [25], all_pos_0 = 4, all_seq_id = 0\<rparr> 0]\<rparr>) \<and>
   accounted (demo_engine False)
       \<lparr>n_past = 5, g_ctx = [], g_got_sigint = 0, FLAG_log_disable = True,
        trace = [Decode \<lparr>n_tokens = 2, token = [21, 22], all_pos_0 = 0, all_seq_id = 0\<rparr> 0,
                 Decode \<lparr>n_tokens = 1, token = [23], all_pos_0 = 2, all_seq_id = 0\<rparr> 0,
                 Decode \<lparr>n_tokens = 1, token = [24], all_pos_0 = 3, all_seq_id = 0\<rparr> 0,
                 Decode \<lparr>n_tokens = 1, token = [25], all_pos_0 = 4, all_seq_id = 0\<rparr> 0]\<rparr> \<and>
   (\<exists>w'. chatbot_main (demo_engine False) (Some demo_params) True True [(''hey'', [])]
            (initial_world [65, 0] True) = Some (Return 0 w') \<and>
         n_past w' = 6 \<and> accounted (demo_engine False) w')"
proof -
  let ?E = "demo_engine False" and ?w = "initial_world ([] :: llama_token list) True"
  let ?calls = "[([21, 22, 23], 2), ([24, 25], 1)] :: (llama_token list \<times> int) list"
  let ?run = "fold (\<lambda>(tokens, nb) r. and_then r (\<lambda>_ v. eval_tokens ?E tokens nb v)) ?calls
                (Some (Return () ?w))"
  let ?end = "\<lparr>n_past = 5, g_ctx = [], g_got_sigint = 0, FLAG_log_disable = True,
        trace = [Decode \<lparr>n_tokens = 2, token = [21, 22], all_pos_0 = 0, all_seq_id = 0\<rparr> 0,
                 Decode \<lparr>n_tokens = 1, token = [23], all_pos_0 = 2, all_seq_id = 0\<rparr> 0,
                 Decode \<lparr>n_tokens = 1, token = [24], all_pos_0 = 3, all_seq_id = 0\<rparr> 0,
                 Decode \<lparr>n_tokens = 1, token = [25], all_pos_0 = 4, all_seq_id = 0\<rparr> 0]\<rparr>
        :: llama_token list world"
  have con: "decode_contract ?E"
    by (simp add: decode_contract_def demo_engine_def)
  have acc: "accounted ?E ?w"
    by (simp add: accounted_def demo_engine_def initial_world_def)
  have fits: "\<forall>(tokens, nb) \<in> set ?calls.
           0 < nb \<and> int (length tokens) + nb \<le> INT_MAX \<and>
           llama_n_ctx ?E (g_ctx ?w) + int (length tokens) \<le> INT_MAX"
    by (simp add: INT_MAX_def demo_engine_def)
  from eval_tokens_accounted [OF con acc, where calls = ?calls] fits obtain w' where
    w': "?run = Some (Return () w') \<or> ?run = Some (Exit 1 w')" and a': "accounted ?E w'"
    by blast
  have run: "?run = Some (Return () ?end)"
    by code_simp
  with w' a' have first: "?run = Some (Return () ?end) \<and> accounted ?E ?end" by auto
  let ?w0 = "initial_world [65, 0 :: llama_token] True"
  let ?main = "chatbot_main ?E (Some demo_params) True True [(''hey'', [])] ?w0"
  have acc0: "accounted ?E ?w0"
    by (simp add: accounted_def demo_engine_def initial_world_def)
  have hyp: "window_fixed ?E \<and> 2 * llama_n_ctx ?E (g_ctx ?w0) \<le> INT_MAX \<and>
          0 < n_batch demo_params \<and> n_batch demo_params \<le> INT_MAX"
    by (simp add: window_fixed_def demo_engine_def demo_params_def INT_MAX_def)
  have "case ?main of Some (Return st v) \<Rightarrow> n_past v = 6 | _ \<Rightarrow> False"
    by code_simp
  then obtain st v where main: "?main = Some (Return st v)" and v: "n_past v = 6"
    by (auto split: option.splits outcome.splits)
  from eval_tokens_accounted [OF con acc0, where params = demo_params and input = "[(''hey'', [])]"]
    hyp main
  have "\<exists>w'. (Return st v = Return 0 w' \<or> Return st v = Exit 1 w') \<and> accounted ?E w'"
    by blast
  with main v have "\<exists>w'. ?main = Some (Return 0 w') \<and> n_past w' = 6 \<and> accounted ?E w'"
    by auto
  with first show ?thesis by blast
qed

text \<open>
  C2. Under the engine's contract, evaluating a token sequence that is longer than the
  remaining capacity \<open>llama_n_ctx - n_past\<close> ends in the overflow exit: the chunks split
  into those the engine accepted, the one whose decode failed, and the rest, which is
  never decoded. The trace is extended by the accepted decodes, the failed decode and
  exactly one diagnostic; \<open>n_past\<close> has advanced by the accepted chunks only, so the
  failed chunk was offered at the final \<open>n_past\<close>, and it stays within the window.
\<close>

theorem eval_tokens_overflow:
  assumes "decode_contract E" and "0 \<le> n_past w" and "n_past w \<le> llama_n_ctx E (g_ctx w)"
    and "0 < nb" and "int (length tokens) + nb \<le> INT_MAX"
    and "n_past w + int (length tokens) \<le> INT_MAX"
    and "llama_n_ctx E (g_ctx w) - n_past w < int (length tokens)"
  shows "\<exists>w' accepted failed rest rc.
           eval_tokens E tokens nb w = Some (Exit 1 w') \<and>
           chunks (nat nb) tokens = accepted @ failed # rest \<and> rc \<noteq> 0 \<and>
           trace w' = trace w @ accepted_decodes (n_past w) accepted @
             [Decode (chunk_batch failed (n_past w')) rc,
              Stderr (out_of_context_message (n_past w') (llama_n_ctx_train E (g_ctx w')))] \<and>
           n_past w' = n_past w + int (length (concat accepted)) \<and>
           n_past w' \<le> llama_n_ctx E (g_ctx w')"
proof -
  let ?cs = "chunks (nat nb) tokens"
  have run: "eval_tokens E tokens nb w = Some (spec_evaluate E ?cs w)"
    using assms by (intro eval_tokens_evaluate) auto
  have whole: "concat ?cs = tokens"
    using assms(4) by (simp add: concat_chunks)
  show ?thesis
  proof (cases "spec_evaluate E ?cs w")
    case (Return u w')
    from evaluate_Return [OF Return] whole
    have "n_past w' = n_past w + int (length tokens)" by simp
    moreover from evaluate_window [OF assms(1), of ?cs w u w'] Return assms(3)
    have "n_past w' \<le> llama_n_ctx E (g_ctx w)" by simp
    ultimately show ?thesis using assms(7) by simp
  next
    case (Exit st w')
    from evaluate_Exit [OF Exit] obtain accepted failed rest rc where
      *: "st = 1" "?cs = accepted @ failed # rest" "rc \<noteq> 0"
      "n_past w' = n_past w + int (length (concat accepted))"
      "trace w' = trace w @ accepted_decodes (n_past w) accepted @
        [Decode (chunk_batch failed (n_past w')) rc,
         Stderr (out_of_context_message (n_past w') (llama_n_ctx_train E (g_ctx w')))]"
      by blast
    from evaluate_window [OF assms(1), of ?cs w _ w' st] Exit assms(3)
    have "n_past w' \<le> llama_n_ctx E (g_ctx w')" by simp
    moreover from run Exit *(1) have "eval_tokens E tokens nb w = Some (Exit 1 w')"
      by simp
    ultimately show ?thesis using *(2-5) by blast
  next
    case Undefined_behaviour
    with evaluate_defined [of E ?cs w] show ?thesis by simp
  qed
qed

theorem eval_tokens_overflow_witness:
  "\<exists>w'. eval_tokens (demo_engine True) [1, 2, 3, 4, 5, 6, 7, 8, 9, 10, 11] 4 (demo_world 0 [] False) =
           Some (Exit 1 w') \<and> n_past w' = 8"
proof -
  let ?E = "demo_engine True" and ?w = "demo_world 0 [] False"
  let ?ts = "[1, 2, 3, 4, 5, 6, 7, 8, 9, 10, 11 :: int]"
  have con: "decode_contract ?E"
    by (simp add: decode_contract_def demo_engine_def)
  have h: "0 \<le> n_past ?w" "n_past ?w \<le> llama_n_ctx ?E (g_ctx ?w)" "(0::int) < 4"
    "int (length ?ts) + 4 \<le> INT_MAX" "n_past ?w + int (length ?ts) \<le> INT_MAX"
    "llama_n_ctx ?E (g_ctx ?w) - n_past ?w < int (length ?ts)"
    by (simp_all add: INT_MAX_def demo_world_def demo_engine_def)
  from eval_tokens_overflow [OF con h] obtain w' accepted failed rest where
    run: "eval_tokens ?E ?ts 4 ?w = Some (Exit 1 w')" and
    cs: "chunks (nat 4) ?ts = accepted @ failed # rest" and
    np: "n_past w' = n_past ?w + int (length (concat accepted))" and
    win: "n_past w' \<le> llama_n_ctx ?E (g_ctx w')"
    by blast
  have "- 2147483648 \<le> n_past ?w" by (simp add: demo_world_def)
  then have "eval_tokens ?E ?ts 4 ?w = Some (spec_evaluate ?E (chunks (nat 4) ?ts) ?w)"
    using h by (intro eval_tokens_evaluate)
  with run have ev: "spec_evaluate ?E (chunks (nat 4) ?ts) ?w = Exit 1 w'"
    by simp
  have "n_past (case spec_evaluate ?E (chunks (nat 4) ?ts) ?w of Exit c v \<Rightarrow> v) = 8"
    by code_simp
  then have "n_past w' = 8"
    unfolding ev by simp
  with run show ?thesis by blast
qed

text \<open>
  C3. For a positive batch size (and sizes that fit a C \<open>int\<close>), \<open>eval_tokens\<close> does what
  the specification's evaluator does on the chunks of the token sequence: the chunks
  are consecutive, in order, non-empty and of at most \<open>n_batch\<close> tokens; each is decoded at
  the position \<open>n_past\<close> has at that moment, and \<open>n_past\<close> advances by the chunk's length
  after each decode the engine accepts. When every chunk is accepted, the decode calls
  are exactly those of the chunks at consecutive positions and \<open>n_past\<close> has advanced by
  the length of the whole sequence.
\<close>

theorem eval_tokens_batches:
  assumes "0 < nb" and "int (length tokens) + nb \<le> INT_MAX"
    and "0 \<le> n_past w" and "n_past w + int (length tokens) \<le> INT_MAX"
  shows "eval_tokens E tokens nb w = Some (spec_evaluate E (chunks (nat nb) tokens) w) \<and>
         concat (chunks (nat nb) tokens) = tokens \<and>
         (\<forall>c \<in> set (chunks (nat nb) tokens). c \<noteq> [] \<and> int (length c) \<le> nb) \<and>
         (\<forall>w'. eval_tokens E tokens nb w = Some (Return () w') \<longrightarrow>
            trace w' = trace w @ accepted_decodes (n_past w) (chunks (nat nb) tokens) \<and>
            n_past w' = n_past w + int (length tokens))"
proof -
  have run: "eval_tokens E tokens nb w = Some (spec_evaluate E (chunks (nat nb) tokens) w)"
    using assms by (intro eval_tokens_evaluate) auto
  have whole: "concat (chunks (nat nb) tokens) = tokens"
    using assms(1) by (simp add: concat_chunks)
  have sizes: "\<forall>c \<in> set (chunks (nat nb) tokens). c \<noteq> [] \<and> int (length c) \<le> nb"
  proof
    fix c
    assume "c \<in> set (chunks (nat nb) tokens)"
    then have "c \<noteq> [] \<and> length c \<le> nat nb"
      by (rule chunks_bounds)
    with assms(1) show "c \<noteq> [] \<and> int (length c) \<le> nb"
      by linarith
  qed
  have fin: "\<forall>w'. eval_tokens E tokens nb w = Some (Return () w') \<longrightarrow>
            trace w' = trace w @ accepted_decodes (n_past w) (chunks (nat nb) tokens) \<and>
            n_past w' = n_past w + int (length tokens)"
  proof (intro allI impI)
    fix w'
    assume "eval_tokens E tokens nb w = Some (Return () w')"
    with run have "spec_evaluate E (chunks (nat nb) tokens) w = Return () w'"
      by simp
    from evaluate_Return [OF this] show
      "trace w' = trace w @ accepted_decodes (n_past w) (chunks (nat nb) tokens) \<and>
       n_past w' = n_past w + int (length tokens)"
      by (simp add: whole)
  qed
  from run whole sizes fin show ?thesis by blast
qed

theorem eval_tokens_batches_witness:
  "eval_tokens (demo_engine True) [11, 12, 13, 14, 15] 2 (demo_world 3 [] True) =
     Some (Return ()
       \<lparr>n_past = 8, g_ctx = [], g_got_sigint = 0, FLAG_log_disable = True,
        trace = [Decode \<lparr>n_tokens = 2, token = [11, 12], all_pos_0 = 3, all_seq_id = 0\<rparr> 0,
                 Decode \<lparr>n_tokens = 2, token = [13, 14], all_pos_0 = 5, all_seq_id = 0\<rparr> 0,
                 Decode \<lparr>n_tokens = 1, token = [15], all_pos_0 = 7, all_seq_id = 0\<rparr> 0]\<rparr>)"
proof -
  have h: "(0::int) < 2" "int (length [11, 12, 13, 14, 15 :: int]) + 2 \<le> INT_MAX"
    "0 \<le> n_past (demo_world 3 [] True)"
    "n_past (demo_world 3 [] True) + int (length [11, 12, 13, 14, 15 :: int]) \<le> INT_MAX"
    by (simp_all add: INT_MAX_def demo_world_def)
  from eval_tokens_batches [OF h, of "demo_engine True"]
  have "eval_tokens (demo_engine True) [11, 12, 13, 14, 15] 2 (demo_world 3 [] True) =
        Some (spec_evaluate (demo_engine True) (chunks (nat 2) [11, 12, 13, 14, 15])
                (demo_world 3 [] True))"
    by blast
  moreover have "spec_evaluate (demo_engine True) (chunks (nat 2) [11, 12, 13, 14, 15])
                   (demo_world 3 [] True) =
     Return ()
       \<lparr>n_past = 8, g_ctx = [], g_got_sigint = 0, FLAG_log_disable = True,
        trace = [Decode \<lparr>n_tokens = 2, token = [11, 12], all_pos_0 = 3, all_seq_id = 0\<rparr> 0,
                 Decode \<lparr>n_tokens = 2, token = [13, 14], all_pos_0 = 5, all_seq_id = 0\<rparr> 0,
                 Decode \<lparr>n_tokens = 1, token = [15], all_pos_0 = 7, all_seq_id = 0\<rparr> 0]\<rparr>"
    by code_simp
  ultimately show ?thesis by simp
qed

subsection \<open>Running out of context\<close>

text \<open>
  C4 (amended). \<open>die_out_of_context\<close> writes one diagnostic to the error stream, which
  reports \<open>n_past\<close> and \<open>llama_n_ctx_train\<close> in decimal, and ends the process at once with
  status 1. Every exit from \<open>chatbot_main\<close> through \<open>exit\<close> is this one: its status is 1,
  which is not zero and differs from 0, 2 and 3, and the diagnostic is the last thing
  traced. \<open>chatbot_main\<close> itself returns 1 for bad arguments, 2 when the model does not
  load, 3 when no context is created, and 0 after the end of the input.
\<close>

theorem out_of_context_exit:
  "die_out_of_context E w =
     Exit 1 (emit [Stderr (out_of_context_message (n_past w) (llama_n_ctx_train E (g_ctx w)))] w) \<and>
   (\<exists>a b c. out_of_context_message n m = a @ printf_d n @ b @ printf_d m @ c) \<and>
   (chatbot_main E parsed model_loaded context_created input w0 = Some (Exit st w') \<longrightarrow>
      st = 1 \<and> st \<notin> {0, 2, 3} \<and>
      (\<exists>tr. trace w' =
         tr @ [Stderr (out_of_context_message (n_past w') (llama_n_ctx_train E (g_ctx w')))])) \<and>
   chatbot_main E None model_loaded context_created input w0 = Some (Return 1 w0) \<and>
   chatbot_main E (Some params) False context_created input w0 = Some (Return 2 w0) \<and>
   chatbot_main E (Some params) True False input w0 = Some (Return 3 w0) \<and>
   (chatbot_main E (Some params) True True input w0 = Some (Return st w') \<longrightarrow> st = 0)"
proof -
  have a: "die_out_of_context E w =
     Exit 1 (emit [Stderr (out_of_context_message (n_past w) (llama_n_ctx_train E (g_ctx w)))] w)"
    by (simp add: die_out_of_context_def)
  have "out_of_context_message n m =
      ([NL] @ BRIGHT_RED @ ''error: ran out of context window at '') @ printf_d n @
      '' tokens; you can use the maximum context window size by passing the flag `-c '' @
      printf_d m @ (''` to llamafile.'' @ UNFOREGROUND @ [NL])"
    by (simp add: out_of_context_message_def)
  then have b: "\<exists>a b c. out_of_context_message n m = a @ printf_d n @ b @ printf_d m @ c"
    by blast
  have c: "st = 1 \<and> st \<notin> {0, 2, 3} \<and>
      (\<exists>tr. trace w' =
         tr @ [Stderr (out_of_context_message (n_past w') (llama_n_ctx_train E (g_ctx w')))])"
    if "chatbot_main E parsed model_loaded context_created input w0 = Some (Exit st w')"
    using chatbot_main_exit [OF that] by (simp add: overflow_exit_def)
  have d: "chatbot_main E None model_loaded context_created input w0 = Some (Return 1 w0)"
    "chatbot_main E (Some params) False context_created input w0 = Some (Return 2 w0)"
    "chatbot_main E (Some params) True False input w0 = Some (Return 3 w0)"
    by (simp_all add: chatbot_main_def)
  have e: "st = 0"
    if "chatbot_main E (Some params) True True input w0 = Some (Return st w')"
    using that
    by (auto simp: chatbot_main_def and_then_def Let_def split: option.splits outcome.splits)
  from a b c d e show ?thesis by blast
qed

theorem out_of_context_exit_witness:
  "\<exists>w' tr. chatbot_main (demo_engine True) (Some demo_params) True True [(''hello'', [])]
             (initial_world [65, 66, 67, 0] True) = Some (Exit 1 w') \<and>
           trace w' = tr @ [Stderr (out_of_context_message 10 32)]"
proof -
  let ?run = "chatbot_main (demo_engine True) (Some demo_params) True True [(''hello'', [])]
                (initial_world [65, 66, 67, 0] True)"
  have "case ?run of
          Some (Exit st w') \<Rightarrow> n_past w' = 10 \<and> llama_n_ctx_train (demo_engine True) (g_ctx w') = 32
        | _ \<Rightarrow> False"
    by code_simp
  then obtain st w' where run: "?run = Some (Exit st w')" and
    np: "n_past w' = 10" "llama_n_ctx_train (demo_engine True) (g_ctx w') = 32"
    by (auto split: option.splits outcome.splits)
  from out_of_context_exit [where E = "demo_engine True" and parsed = "Some demo_params"
      and model_loaded = True and context_created = True and input = "[(''hello'', [])]"
      and ?w0.0 = "initial_world [65, 66, 67, 0] True" and st = st and w' = w'
      and w = w' and n = 10 and m = 32 and params = demo_params] run
  have "st = 1 \<and>
    (\<exists>tr. trace w' = tr @ [Stderr (out_of_context_message (n_past w')
                                   (llama_n_ctx_train (demo_engine True) (g_ctx w')))])"
    by blast
  with run np show ?thesis by auto
qed

text \<open>
  C4 as stated fails: the status of the overflow exit is not distinct from the
  statuses 0 to 3. It is 1, the status \<open>chatbot_main\<close> returns for bad arguments.
\<close>

theorem out_of_context_status_counterexample:
  "exit_status (die_out_of_context (demo_engine True) (demo_world 10 [] True)) = Some 1 \<and>
   map_option exit_status
     (chatbot_main (demo_engine True) None True True [] (initial_world [] True)) = Some (Some 1)"
  by (simp add: die_out_of_context_def chatbot_main_def)

subsection \<open>The command dispatcher\<close>

text \<open>
  C5. \<open>handle_command\<close> reports "not a command" exactly when the line does not start with
  \<open>/\<close> followed by a letter. A line that does is handled as a command: control goes back
  to the loop and neither the template nor the tokenizer is called, so it never reaches
  the turn renderer. Any other line that is not blank is chat text: it is rendered
  as the user's turn. In particular \<open>/context\<close> and \<open>/contextfoo\<close> are commands, the
  latter reported as unrecognized under the name \<open>contextfoo\<close>, while \<open>context\<close>, a bare
  \<open>/\<close> and \<open>/\<close> followed by a character that is not a letter are chat text.
\<close>

theorem command_dispatch:
  "(handle_command E line w = Return False w \<longleftrightarrow> \<not> slash_alpha line) \<and>
   (slash_alpha line \<longrightarrow>
      (\<exists>w'. handle_command E line w = Return True w' \<and>
            chatbot_turn E params line sigs w = Some (Return () w') \<and>
            turn_events (trace w') = turn_events (trace w) \<and>
            n_past w' = n_past w \<and> g_ctx w' = g_ctx w)) \<and>
   (\<not> slash_alpha line \<and> \<not> is_empty line \<longrightarrow>
      chatbot_turn E params line sigs w = chat_reply E params line sigs w) \<and>
   (\<forall>r. chat_reply E params line sigs w = Some r \<longrightarrow>
      ends_in r (\<lambda>w'. turn_events (trace w') = turn_events (trace w) @
        [Apply_template (chat_template params) [(''user'', line)] True,
         Tokenize (c_str (llama_chat_apply_template E (g_ctx w) (chat_template params)
                     [(''user'', line)] True)) False True])) \<and>
   slash_alpha ''/context'' \<and> slash_alpha ''/contextfoo'' \<and>
   handle_command E ''/contextfoo'' w =
     Return True (emit [Stdout (''contextfoo: unrecognized command'' @ [NL])] w) \<and>
   \<not> slash_alpha ''context'' \<and> \<not> is_empty ''context'' \<and>
   \<not> slash_alpha ''/'' \<and> \<not> is_empty ''/'' \<and>
   (\<not> isalpha c \<longrightarrow> \<not> slash_alpha (CHR ''/'' # c # rest) \<and> \<not> is_empty (CHR ''/'' # c # rest))"
proof -
  have a: "handle_command E line w = Return False w \<longleftrightarrow> \<not> slash_alpha line"
  proof (cases "slash_alpha line")
    case True
    from handle_command_True [OF this, of E w] True show ?thesis by auto
  next
    case False
    then show ?thesis by (simp add: handle_command_def)
  qed
  have b: "slash_alpha line \<longrightarrow>
      (\<exists>w'. handle_command E line w = Return True w' \<and>
            chatbot_turn E params line sigs w = Some (Return () w') \<and>
            turn_events (trace w') = turn_events (trace w) \<and>
            n_past w' = n_past w \<and> g_ctx w' = g_ctx w)"
  proof
    assume s: "slash_alpha line"
    from handle_command_True [OF s, of E w] obtain w' where
      w': "handle_command E line w = Return True w'"
          "turn_events (trace w') = turn_events (trace w)"
          "n_past w' = n_past w" "g_ctx w' = g_ctx w"
      by blast
    from s w'(1) have "chatbot_turn E params line sigs w = Some (Return () w')"
      by (simp add: chatbot_turn_def slash_alpha_not_empty)
    with w' show "\<exists>w'. handle_command E line w = Return True w' \<and>
            chatbot_turn E params line sigs w = Some (Return () w') \<and>
            turn_events (trace w') = turn_events (trace w) \<and>
            n_past w' = n_past w \<and> g_ctx w' = g_ctx w"
      by blast
  qed
  have c: "\<not> slash_alpha line \<and> \<not> is_empty line \<longrightarrow>
      chatbot_turn E params line sigs w = chat_reply E params line sigs w"
    by (simp add: chatbot_turn_def handle_command_def)
  have d: "\<forall>r. chat_reply E params line sigs w = Some r \<longrightarrow>
      ends_in r (\<lambda>w'. turn_events (trace w') = turn_events (trace w) @
        [Apply_template (chat_template params) [(''user'', line)] True,
         Tokenize (c_str (llama_chat_apply_template E (g_ctx w) (chat_template params)
                     [(''user'', line)] True)) False True])"
    using chat_reply_turn_events by blast
  have e: "slash_alpha ''/context''" "slash_alpha ''/contextfoo''"
    "\<not> slash_alpha ''context''" "\<not> is_empty ''context''"
    "\<not> slash_alpha ''/''" "\<not> is_empty ''/''"
    by (simp_all add: c_at_def isalpha_def isspace_def)
  have f: "handle_command E ''/contextfoo'' w =
     Return True (emit [Stdout (''contextfoo: unrecognized command'' @ [NL])] w)"
    by (simp add: handle_command_def c_at_def isalpha_def iss_words_Cons isspace_def)
  have g: "\<not> isalpha c \<longrightarrow> \<not> slash_alpha (CHR ''/'' # c # rest) \<and> \<not> is_empty (CHR ''/'' # c # rest)"
    by (simp add: c_at_def isspace_def)
  from a b c d e f g show ?thesis by blast
qed

theorem command_dispatch_witness:
  "\<exists>w'. chatbot_turn (demo_engine True) demo_params ''/context'' [] (demo_world 7 [] True) =
           Some (Return () w') \<and>
         turn_events (trace w') = [] \<and> n_past w' = 7"
proof -
  have "slash_alpha ''/context''"
    by (simp add: c_at_def isalpha_def)
  with command_dispatch [where line = "''/context''" and E = "demo_engine True"
      and w = "demo_world 7 [] True" and params = demo_params and sigs = "[]"]
  obtain w' where
    "chatbot_turn (demo_engine True) demo_params ''/context'' [] (demo_world 7 [] True) =
       Some (Return () w')"
    "turn_events (trace w') = turn_events (trace (demo_world 7 [] True))"
    "n_past w' = n_past (demo_world 7 [] True)"
    by blast
  then show ?thesis
    by (auto simp: demo_world_def)
qed

subsection \<open>The generation loop\<close>

text \<open>
  C6. When the interrupt flag is set at a check of the loop condition (it was set
  before, or the handler has run since the previous check), the loop ends there
  without sampling: \<open>n_past\<close>, the engine and the trace are as they were at the check, so
  what was streamed and evaluated before stays. After the loop the flag is cleared and a
  newline is written. This holds for the first check of a reply and for any later one
  that the reply reaches.
\<close>

theorem generation_cancelled:
  assumes "g_got_sigint (deliver sigs w) \<noteq> 0"
  shows "generation_loop E params sigs w = Some (Return () (deliver sigs w)) \<and>
         n_past (deliver sigs w) = n_past w \<and> g_ctx (deliver sigs w) = g_ctx w \<and>
         trace (deliver sigs w) = trace w \<and>
         generate E params sigs w =
           Some (Return () (emit [Stdout [NL]] (w\<lparr>g_got_sigint := 0\<rparr>))) \<and>
         (\<forall>sigs0 w0.
            generation_loop E params sigs0 w0 = generation_loop E params sigs w \<longrightarrow>
            generate E params sigs0 w0 =
              Some (Return () (emit [Stdout [NL]] (w\<lparr>g_got_sigint := 0\<rparr>))))"
proof -
  have l: "generation_loop E params sigs w = Some (Return () (deliver sigs w))"
    using assms by (subst generation_loop.simps) (simp add: Let_def)
  then have g: "generate E params sigs0 w0 =
           Some (Return () (emit [Stdout [NL]] (w\<lparr>g_got_sigint := 0\<rparr>)))"
    if "generation_loop E params sigs0 w0 = generation_loop E params sigs w" for sigs0 w0
    using that by (simp add: generate_def and_then_def deliver_reset)
  have "n_past (deliver sigs w) = n_past w \<and> g_ctx (deliver sigs w) = g_ctx w \<and>
         trace (deliver sigs w) = trace w"
    by (auto simp: deliver_def on_sigint_def split: list.splits bool.splits)
  with l g [of sigs w] g show ?thesis by blast
qed

theorem generation_cancelled_witness:
  "generate (demo_engine True) demo_params [False, False, True] (demo_world 5 [65, 66, 0] True) =
     Some (Return () \<lparr>n_past = 7, g_ctx = [0], g_got_sigint = 0, FLAG_log_disable = True,
        trace = [Sample 65, Accept 65, Stdout ''A'', Fflush_stdout,
                 Decode \<lparr>n_tokens = 1, token = [65], all_pos_0 = 5, all_seq_id = 0\<rparr> 0,
                 Sample 66, Accept 66, Stdout ''B'', Fflush_stdout,
                 Decode \<lparr>n_tokens = 1, token = [66], all_pos_0 = 6, all_seq_id = 0\<rparr> 0,
                 Stdout [NL]]\<rparr>)"
proof -
  let ?E = "demo_engine True"
  let ?mid = "\<lparr>n_past = 7, g_ctx = [0], g_got_sigint = 0, FLAG_log_disable = True,
        trace = [Sample 65, Accept 65, Stdout ''A'', Fflush_stdout,
                 Decode \<lparr>n_tokens = 1, token = [65], all_pos_0 = 5, all_seq_id = 0\<rparr> 0,
                 Sample 66, Accept 66, Stdout ''B'', Fflush_stdout,
                 Decode \<lparr>n_tokens = 1, token = [66], all_pos_0 = 6, all_seq_id = 0\<rparr> 0]\<rparr>
        :: llama_token list world"
  have flag: "g_got_sigint (deliver [True] ?mid) \<noteq> 0"
    by (simp add: deliver_def on_sigint_def)
  have reach: "generation_loop ?E demo_params [False, False, True] (demo_world 5 [65, 66, 0] True) =
               generation_loop ?E demo_params [True] ?mid"
    by code_simp
  from generation_cancelled [OF flag, of ?E demo_params] reach
  have "generate ?E demo_params [False, False, True] (demo_world 5 [65, 66, 0] True) =
          Some (Return () (emit [Stdout [NL]] (?mid\<lparr>g_got_sigint := 0\<rparr>)))"
    by blast
  then show ?thesis
    by (simp add: emit_def)
qed



subsection \<open>Rendering turns\<close>

text \<open>
  C8 (amended). Under the engine's contract, with twice the window and the batch size
  within the range of a C \<open>int\<close>, loading the prompt always returns or dies out of
  context, and by then it has rendered the system turn with \<open>add_ass = false\<close> and
  tokenized the rendered text, read as a C string, with \<open>add_special\<close> set to what
  \<open>llama_should_add_bos_token\<close> says for the model. Likewise the reply to a chat line
  always returns or dies out of context, having rendered the user's turn with
  \<open>add_ass = true\<close> and tokenized it with \<open>add_special = false\<close>. Both parse special
  tokens, and neither calls the template or the tokenizer a second time. In a whole
  session the template and tokenizer calls are those of the system turn followed by
  those of one user's turn for each line that is neither blank nor a command, in the
  order of the input: all of them when \<open>chatbot_main\<close> returns, and those up to the turn
  in which it dies otherwise.
\<close>

theorem turn_rendering:
  assumes "decode_contract E" and "window_fixed E" and "accounted E w"
    and "2 * llama_n_ctx E (g_ctx w) \<le> INT_MAX"
    and "0 < n_batch params" and "n_batch params \<le> INT_MAX"
  shows
    "(\<exists>w'. (load_prompt E params w = Some (Return () w') \<or>
            load_prompt E params w = Some (Exit 1 w')) \<and>
           turn_events (trace w') =
             turn_events (trace w) @
             [Apply_template (chat_template params) [(''system'', prompt params)] False,
              Tokenize (c_str (llama_chat_apply_template E (g_ctx w) (chat_template params)
                                 [(''system'', prompt params)] False))
                       (llama_should_add_bos_token E (g_ctx w)) True]) \<and>
     (\<exists>w'. (chat_reply E params line sigs w = Some (Return () w') \<or>
            chat_reply E params line sigs w = Some (Exit 1 w')) \<and>
           turn_events (trace w') =
             turn_events (trace w) @
             [Apply_template (chat_template params) [(''user'', line)] True,
              Tokenize (c_str (llama_chat_apply_template E (g_ctx w) (chat_template params)
                                 [(''user'', line)] True))
                       False True]) \<and>
     (\<exists>w' turns.
        (chatbot_main E (Some params) True True input w = Some (Return 0 w') \<and>
           map fst turns = chat_lines input \<or>
         chatbot_main E (Some params) True True input w = Some (Exit 1 w') \<and>
           (\<exists>k. map fst turns = take k (chat_lines input))) \<and>
        turn_events (trace w') =
          turn_events (trace w) @
          system_turn E (chat_template params)
            (if prompt params = [] then default_prompt else prompt params) (g_ctx w) @
          concat (map (user_turn E (chat_template params)) turns))"
proof -
  from load_prompt_renders [OF assms(1,4,5,6,3)]
  have a: "\<exists>w'. (load_prompt E params w = Some (Return () w') \<or>
            load_prompt E params w = Some (Exit 1 w')) \<and>
           turn_events (trace w') =
             turn_events (trace w) @
             [Apply_template (chat_template params) [(''system'', prompt params)] False,
              Tokenize (c_str (llama_chat_apply_template E (g_ctx w) (chat_template params)
                                 [(''system'', prompt params)] False))
                       (llama_should_add_bos_token E (g_ctx w)) True]"
    unfolding system_turn_def by blast
  from chat_reply_renders [OF assms(1,2,4,5,6,3), of line sigs]
  have b: "\<exists>w'. (chat_reply E params line sigs w = Some (Return () w') \<or>
            chat_reply E params line sigs w = Some (Exit 1 w')) \<and>
           turn_events (trace w') =
             turn_events (trace w) @
             [Apply_template (chat_template params) [(''user'', line)] True,
              Tokenize (c_str (llama_chat_apply_template E (g_ctx w) (chat_template params)
                                 [(''user'', line)] True))
                       False True]"
    unfolding user_turn_def by (simp only: fst_conv snd_conv) blast
  from a b chatbot_main_renders [OF assms(1,2,4,5,6,3), of input] show ?thesis
    by (intro conjI)
qed

theorem turn_rendering_witness:
  "\<exists>w'. chatbot_main (demo_engine True)
           (Some (demo_params\<lparr>prompt := ''Hi'' @ CHR 0x00 # ''dden''\<rparr>)) True True
           [(''/stats'', []), (''yo'', [])] (initial_world [42, 0] True) = Some (Return 0 w') \<and>
         turn_events (trace w') =
           [Apply_template ''chatml'' [(''system'', ''Hi'' @ CHR 0x00 # ''dden'')] False,
            Tokenize ''Hi'' True True,
            Apply_template ''chatml'' [(''user'', ''yo'')] True, Tokenize ''yo'' False True]"
proof -
  let ?params = "demo_params\<lparr>prompt := ''Hi'' @ CHR 0x00 # ''dden''\<rparr>"
  let ?E = "demo_engine True" and ?w = "initial_world [42, 0 :: llama_token] True"
  let ?input = "[(''/stats'', []), (''yo'', [])] :: (string \<times> bool list) list"
  let ?main = "chatbot_main ?E (Some ?params) True True ?input ?w"
  have hyps: "decode_contract ?E" "window_fixed ?E" "accounted ?E ?w"
    "2 * llama_n_ctx ?E (g_ctx ?w) \<le> INT_MAX" "0 < n_batch ?params"
    "n_batch ?params \<le> INT_MAX"
    by (simp_all add: decode_contract_def window_fixed_def accounted_def demo_engine_def
          demo_params_def initial_world_def INT_MAX_def)
  from turn_rendering [OF hyps, where input = ?input and line = "''yo''" and sigs = "[]"]
  obtain w' turns where
    run: "?main = Some (Return 0 w') \<and> map fst turns = chat_lines ?input \<or>
          ?main = Some (Exit 1 w') \<and> (\<exists>k. map fst turns = take k (chat_lines ?input))"
    and ev: "turn_events (trace w') =
          turn_events (trace ?w) @
          system_turn ?E (chat_template ?params)
            (if prompt ?params = [] then default_prompt else prompt ?params) (g_ctx ?w) @
          concat (map (user_turn ?E (chat_template ?params)) turns)"
    by blast
  have "case ?main of Some (Return st v) \<Rightarrow> True | _ \<Rightarrow> False"
    by code_simp
  with run have ret: "?main = Some (Return 0 w')" and "map fst turns = chat_lines ?input"
    by (auto split: option.splits outcome.splits)
  moreover have "chat_lines ?input = [''yo'']"
    by (simp add: chat_lines_def c_at_def isalpha_def isspace_def)
  ultimately obtain e where "turns = [(''yo'', e)]"
    by (cases turns) auto
  with ev have "turn_events (trace w') =
           [Apply_template ''chatml'' [(''system'', ''Hi'' @ CHR 0x00 # ''dden'')] False,
            Tokenize ''Hi'' True True,
            Apply_template ''chatml'' [(''user'', ''yo'')] True, Tokenize ''yo'' False True]"
    by (simp add: system_turn_def user_turn_def demo_engine_def demo_params_def
          initial_world_def c_str_def)
  with ret show ?thesis by blast
qed

text \<open>
  C8 as stated fails for a model that asks for no beginning-of-sequence token: the
  system turn is then tokenized with \<open>add_special = false\<close>, and the tokens decoded are
  those of the text alone.
\<close>

theorem system_turn_bos_counterexample:
  "(case load_prompt (demo_engine False) demo_params (initial_world [] True) of
      Some (Return u w') \<Rightarrow>
        turn_events (trace w') =
          [Apply_template ''chatml'' [(''system'', ''Hi'')] False, Tokenize ''Hi'' False True] \<and>
        filter (\<lambda>ev. case ev of Decode b rc \<Rightarrow> True | _ \<Rightarrow> False) (trace w') =
          [Decode \<lparr>n_tokens = 2, token = [72, 105], all_pos_0 = 0, all_seq_id = 0\<rparr> 0]
    | _ \<Rightarrow> False)"
  by code_simp

subsection \<open>The stats command and the argument vector\<close>

text \<open>
  C9 (amended). A line whose command name is \<open>stats\<close> calls \<open>llama_print_timings\<close> while
  \<open>FLAG_log_disable\<close> is false, then sets \<open>FLAG_log_disable\<close> to true, whatever it was
  before; this restores the earlier value only when logging was already suppressed.
  Nothing else of the state changes apart from the trace, and control goes back to
  the loop.
\<close>

theorem stats_command:
  assumes "line = ''/stats'' @ rest" and "rest = [] \<or> isspace (hd rest)"
  shows "handle_command E line w =
           Return True ((emit [Print_timings False] w)\<lparr>FLAG_log_disable := True\<rparr>) \<and>
         chatbot_turn E params line sigs w =
           Some (Return () ((emit [Print_timings False] w)\<lparr>FLAG_log_disable := True\<rparr>)) \<and>
         (FLAG_log_disable w \<longrightarrow>
            (emit [Print_timings False] w)\<lparr>FLAG_log_disable := True\<rparr> = emit [Print_timings False] w)"
proof -
  have s: "slash_alpha line"
    using assms(1) by (simp add: c_at_def isalpha_def)
  have "iss_words (drop 1 line) = ''stats'' # iss_words rest"
    using stats_words [OF assms(2)] assms(1) by simp
  with s have h: "handle_command E line w =
           Return True ((emit [Print_timings False] w)\<lparr>FLAG_log_disable := True\<rparr>)"
    by (simp add: handle_command_def Let_def emit_def)
  moreover from s h have "chatbot_turn E params line sigs w =
           Some (Return () ((emit [Print_timings False] w)\<lparr>FLAG_log_disable := True\<rparr>))"
    by (simp add: chatbot_turn_def slash_alpha_not_empty)
  moreover have "FLAG_log_disable w \<longrightarrow>
            (emit [Print_timings False] w)\<lparr>FLAG_log_disable := True\<rparr> = emit [Print_timings False] w"
    by (simp add: emit_def)
  ultimately show ?thesis by blast
qed

theorem stats_command_witness:
  "handle_command (demo_engine True) ''/stats please'' (demo_world 7 [] True) =
     Return True \<lparr>n_past = 7, g_ctx = [], g_got_sigint = 0, FLAG_log_disable = True,
                  trace = [Print_timings False]\<rparr> \<and>
   chatbot_turn (demo_engine True) demo_params ''/stats please'' [] (demo_world 7 [] True) =
     Some (Return () \<lparr>n_past = 7, g_ctx = [], g_got_sigint = 0, FLAG_log_disable = True,
                       trace = [Print_timings False]\<rparr>)"
proof -
  have h: "''/stats please'' = ''/stats'' @ '' please''"
    "'' please'' = [] \<or> isspace (hd '' please'')"
    by (simp_all add: isspace_def)
  from stats_command [OF h, of "demo_engine True" "demo_world 7 [] True" demo_params "[]"]
  show ?thesis
    by (simp add: emit_def demo_world_def)
qed

text \<open>
  C9 as stated fails when logging was not suppressed before the command: the flag is
  true afterwards, not its earlier value.
\<close>

theorem stats_restore_counterexample:
  "handle_command (demo_engine True) ''/stats'' (demo_world 7 [] False) =
     Return True \<lparr>n_past = 7, g_ctx = [], g_got_sigint = 0, FLAG_log_disable = True,
                  trace = [Print_timings False]\<rparr> \<and>
   FLAG_log_disable (demo_world 7 [] False) = False"
  by code_simp

text \<open>
  C10. When the line starts with \<open>/\<close> and a letter, splitting the rest on white space
  yields at least one word, a non-empty one that starts with that letter; so reading
  \<open>args[0]\<close> is always within bounds and \<open>handle_command\<close> never has undefined behaviour.
\<close>

theorem command_args_nonempty:
  "(slash_alpha command \<longrightarrow>
      (\<exists>arg0 args. iss_words (drop 1 command) = arg0 # args \<and> arg0 \<noteq> [] \<and> isalpha (hd arg0))) \<and>
   handle_command E command w \<noteq> Undefined_behaviour"
proof -
  have "\<exists>arg0 args. iss_words (drop 1 command) = arg0 # args \<and> arg0 \<noteq> [] \<and> isalpha (hd arg0)"
    if "slash_alpha command"
  proof -
    from that obtain c r where "command = CHR ''/'' # c # r" "isalpha c"
      using is_command_iff by blast
    then show ?thesis
      by (simp add: iss_words_Cons isalpha_not_isspace)
  qed
  then show ?thesis
    using handle_command_defined by blast
qed

theorem command_args_nonempty_witness:
  "slash_alpha ''/stats now'' \<and>
   (\<exists>args. iss_words (drop 1 ''/stats now'') = ''stats'' # args)"
proof -
  have s: "slash_alpha ''/stats now''"
    by (simp add: c_at_def isalpha_def)
  with command_args_nonempty [of "''/stats now''"] obtain arg0 args where
    a: "iss_words (drop 1 ''/stats now'') = arg0 # args"
    by blast
  have "hd (iss_words (drop 1 ''/stats now'')) = ''stats''"
    by code_simp
  with a have "arg0 = ''stats''" by simp
  with a s show ?thesis by blast
qed

end
